theory Spec2Isabelle
  imports Main "HOL-Library.Multiset"
begin

section \<open>Data model (src/types/game.ts)\<close>

text \<open>
  Card objects are mutable and shared: the engine flips \<open>faceUp\<close> in place and copies
  arrays of cards only shallowly. A pile is therefore a list of addresses of card objects,
  and the card objects live in a store. Pile arrays themselves are never shared between two
  places of a state or between a state and a history entry (every constructor in the source
  builds fresh arrays), so piles are plain lists.

  JavaScript numbers that only ever hold integers (\<open>value\<close>, \<open>moves\<close>, \<open>score\<close>,
  indices) are \<open>int\<close>. The sums the engine computes on them are those of JavaScript as
  long as operands and results are safe integers (at most \<open>2^53 - 1\<close> in absolute value),
  which every counter of a game is; a statement about the score of an arbitrary board
  carries that as a hypothesis (\<open>isSafeInteger\<close>). The fields \<open>id\<close>, \<open>value\<close> and \<open>type\<close> carry a suffix
  because the plain names are taken. \<open>foundations\<close> is the object with the four suit keys
  that every constructor builds, in the order spades, hearts, diamonds, clubs, which is the
  order of \<open>Object.values\<close>.
\<close>

datatype Suit = Spades | Hearts | Diamonds | Clubs

datatype Rank = RA | R2 | R3 | R4 | R5 | R6 | R7 | R8 | R9 | R10 | RJ | RQ | RK

datatype Location = LStock | LWaste | LFoundation | LTableau

record Card =
  id_c :: string
  suit :: Suit
  rank :: Rank
  value_c :: int
  faceUp :: bool
  location :: Location
  position :: int

type_synonym ref = nat

type_synonym heap = "ref \<Rightarrow> Card"

record Stats =
  time_st :: int
  moves_st :: int
  score_st :: int

text \<open>The element type of \<open>gameHistory\<close>; \<open>GameState\<close> has the same five fields and more.\<close>

record Snapshot =
  stock :: "ref list"
  waste :: "ref list"
  foundations :: "Suit \<Rightarrow> ref list"
  tableau :: "ref list list"
  gameStats :: Stats

text \<open>The ninety rendering switches of \<open>GameSettings\<close> are never read by the engine.\<close>

datatype GameSettings = DefaultSettings | CustomSettings nat

record GameState = Snapshot +
  selectedCard :: "ref option"
  moves :: int
  score :: int
  time :: int
  isWon :: bool
  canUndo :: bool
  gameHistory :: "Snapshot list"
  drawMode :: int
  settings :: GameSettings

datatype MoveType = MStock | MWaste | MFoundation | MTableau | MWasteToTableau

record Move =
  type_m :: MoveType
  cardId :: string
  sourceType :: "Location option"
  sourceIndex :: "int option"
  targetIndex :: "int option"
  fromLocation :: "Location option"
  toLocation :: "Location option"
  fromPosition :: "int option"
  toPosition :: "int option"

record MoveResult =
  success :: bool
  newState :: GameState
  error :: "string option"

text \<open>
  Reading \<open>pile.length\<close> of an \<open>undefined\<close> pile throws a \<open>TypeError\<close>. A method of the
  engine returns the store and the \<open>gameState\<close> argument as the call leaves them (the
  argument is mutated in place), and either the exception or the returned value.
\<close>

datatype exn = TypeError

type_synonym 'a effect = "heap \<times> GameState \<times> (exn + 'a)"

definition Object_values :: "(Suit \<Rightarrow> ref list) \<Rightarrow> ref list list" where
  "Object_values f = [f Spades, f Hearts, f Diamonds, f Clubs]"

definition isRed :: "Card \<Rightarrow> bool" where
  "isRed c = (suit c = Hearts \<or> suit c = Diamonds)"

section \<open>GameEngine (src/unnamed/part_004)\<close>

subsection \<open>Array helpers\<close>

fun findIndex :: "('a \<Rightarrow> bool) \<Rightarrow> 'a list \<Rightarrow> nat option" where
  "findIndex P [] = None"
| "findIndex P (x # xs) = (if P x then Some 0 else map_option Suc (findIndex P xs))"

definition splice1 :: "nat \<Rightarrow> 'a list \<Rightarrow> 'a list" where
  "splice1 i xs = take i xs @ drop (Suc i) xs"

text \<open>
  \<open>tableau[i]\<close> for a number \<open>i\<close>: \<open>undefined\<close> for a negative index and past the end.
\<close>

definition pileAt :: "ref list list \<Rightarrow> int \<Rightarrow> ref list option" where
  "pileAt t i = (if 0 \<le> i \<and> i < int (length t) then Some (t ! nat i) else None)"

subsection \<open>canMoveToTableau, findCard, removeCardFromSource, getCardsToMove\<close>

definition canMoveToTableau :: "heap \<Rightarrow> ref \<Rightarrow> ref list \<Rightarrow> bool" where
  "canMoveToTableau h crd pile =
     (if pile = [] then rank (h crd) = RK
      else let topCard = last pile in
        if \<not> faceUp (h topCard) then False
        else value_c (h crd) = value_c (h topCard) - 1 \<and> isRed (h crd) \<noteq> isRed (h topCard))"

definition allCards :: "GameState \<Rightarrow> ref list" where
  "allCards gs =
     stock gs @ waste gs @ concat (tableau gs) @ concat (Object_values (foundations gs))"

definition findCard :: "heap \<Rightarrow> GameState \<Rightarrow> string \<Rightarrow> ref option" where
  "findCard h gs cid = find (\<lambda>crd. id_c (h crd) = cid) (allCards gs)"

fun removeFromPiles :: "('a \<Rightarrow> bool) \<Rightarrow> 'a list list \<Rightarrow> 'a list list option" where
  "removeFromPiles P [] = None"
| "removeFromPiles P (pile # piles) =
     (case findIndex P pile of
        Some cardIndex \<Rightarrow> Some (splice1 cardIndex pile # piles)
      | None \<Rightarrow> map_option ((#) pile) (removeFromPiles P piles))"

fun removeFromFoundations ::
  "(ref \<Rightarrow> bool) \<Rightarrow> Suit list \<Rightarrow> (Suit \<Rightarrow> ref list) \<Rightarrow> (Suit \<Rightarrow> ref list)" where
  "removeFromFoundations P [] f = f"
| "removeFromFoundations P (s # ss) f =
     (case findIndex P (f s) of
        Some cardIndex \<Rightarrow> f(s := splice1 cardIndex (f s))
      | None \<Rightarrow> removeFromFoundations P ss f)"

definition removeCardFromSource :: "heap \<Rightarrow> GameState \<Rightarrow> ref \<Rightarrow> GameState" where
  "removeCardFromSource h gs crd =
     (let P = (\<lambda>c. id_c (h c) = id_c (h crd)) in
      case findIndex P (stock gs) of
        Some stockIndex \<Rightarrow> gs\<lparr>stock := splice1 stockIndex (stock gs)\<rparr>
      | None \<Rightarrow>
     (case findIndex P (waste gs) of
        Some wasteIndex \<Rightarrow> gs\<lparr>waste := splice1 wasteIndex (waste gs)\<rparr>
      | None \<Rightarrow>
     (case removeFromPiles P (tableau gs) of
        Some t \<Rightarrow> gs\<lparr>tableau := t\<rparr>
      | None \<Rightarrow>
        gs\<lparr>foundations :=
             removeFromFoundations P [Spades, Hearts, Diamonds, Clubs] (foundations gs)\<rparr>)))"

fun getCardsToMove_loop :: "('a \<Rightarrow> bool) \<Rightarrow> 'a list list \<Rightarrow> 'a \<Rightarrow> 'a list" where
  "getCardsToMove_loop P [] crd = [crd]"
| "getCardsToMove_loop P (pile # piles) crd =
     (case findIndex P pile of
        Some cardIndex \<Rightarrow> drop cardIndex pile
      | None \<Rightarrow> getCardsToMove_loop P piles crd)"

definition getCardsToMove :: "heap \<Rightarrow> GameState \<Rightarrow> ref \<Rightarrow> ref list" where
  "getCardsToMove h gs crd =
     getCardsToMove_loop (\<lambda>c. id_c (h c) = id_c (h crd)) (tableau gs) crd"

subsection \<open>revealHiddenCards\<close>

fun reveal_loop :: "ref list list \<Rightarrow> heap \<Rightarrow> int \<Rightarrow> heap \<times> int" where
  "reveal_loop [] h sc = (h, sc)"
| "reveal_loop (pile # piles) h sc =
     (if pile \<noteq> [] \<and> \<not> faceUp (h (last pile))
      then reveal_loop piles (h(last pile := (h (last pile))\<lparr>faceUp := True\<rparr>)) (sc + 5)
      else reveal_loop piles h sc)"

definition revealHiddenCards :: "heap \<Rightarrow> GameState \<Rightarrow> heap \<times> GameState" where
  "revealHiddenCards h gs =
     (case reveal_loop (tableau gs) h (score gs) of (h', sc) \<Rightarrow> (h', gs\<lparr>score := sc\<rparr>))"

subsection \<open>The three movers\<close>

definition failure :: "heap \<Rightarrow> GameState \<Rightarrow> string \<Rightarrow> MoveResult effect" where
  "failure h gs msg = (h, gs, Inr \<lparr>success = False, newState = gs, error = Some msg\<rparr>)"

definition succeeded :: "heap \<Rightarrow> GameState \<Rightarrow> MoveResult effect" where
  "succeeded h gs = (h, gs, Inr \<lparr>success = True, newState = gs, error = None\<rparr>)"

definition moveToFoundation :: "heap \<Rightarrow> GameState \<Rightarrow> Move \<Rightarrow> MoveResult effect" where
  "moveToFoundation h gs move =
     (case findCard h gs (cardId move) of
        None \<Rightarrow> failure h gs ''Card not found''
      | Some crd \<Rightarrow>
          let foundation = foundations gs (suit (h crd)) in
          if foundation = [] \<and> rank (h crd) \<noteq> RA
          then failure h gs ''Only Ace can be placed on empty foundation''
          else if foundation \<noteq> [] \<and> value_c (h crd) \<noteq> value_c (h (last foundation)) + 1
          then failure h gs ''Card must be next in sequence''
          else
            let gs1 = removeCardFromSource h gs crd;
                gs2 = gs1\<lparr>foundations := (foundations gs1)
                        (suit (h crd) := foundations gs1 (suit (h crd)) @ [crd])\<rparr>;
                gs3 = gs2\<lparr>moves := moves gs2 + 1\<rparr>;
                gs4 = gs3\<lparr>score := score gs3 + 10\<rparr>
            in case revealHiddenCards h gs4 of (h', gs5) \<Rightarrow> succeeded h' gs5)"

fun removeAll_from_source :: "heap \<Rightarrow> ref list \<Rightarrow> GameState \<Rightarrow> GameState" where
  "removeAll_from_source h [] gs = gs"
| "removeAll_from_source h (c # cs) gs = removeAll_from_source h cs (removeCardFromSource h gs c)"

definition moveToTableau :: "heap \<Rightarrow> GameState \<Rightarrow> Move \<Rightarrow> MoveResult effect" where
  "moveToTableau h gs move =
     (case (findCard h gs (cardId move), targetIndex move) of
        (Some crd, Some ti) \<Rightarrow>
          (case pileAt (tableau gs) ti of
             None \<Rightarrow> (h, gs, Inl TypeError)
           | Some targetPile \<Rightarrow>
               if \<not> canMoveToTableau h crd targetPile
               then failure h gs ''Invalid tableau move''
               else
                 let cardsToMove = getCardsToMove h gs crd;
                     gs1 = removeAll_from_source h cardsToMove gs;
                     gs2 = gs1\<lparr>tableau := list_update (tableau gs1) (nat ti)
                                      (tableau gs1 ! nat ti @ cardsToMove)\<rparr>;
                     gs3 = gs2\<lparr>moves := moves gs2 + 1\<rparr>;
                     gs4 = gs3\<lparr>score := score gs3 + int (length cardsToMove)\<rparr>
                 in case revealHiddenCards h gs4 of (h', gs5) \<Rightarrow> succeeded h' gs5)
      | _ \<Rightarrow> failure h gs ''Invalid move parameters'')"

definition moveWasteToTableau :: "heap \<Rightarrow> GameState \<Rightarrow> Move \<Rightarrow> MoveResult effect" where
  "moveWasteToTableau h gs move =
     (case targetIndex move of
        None \<Rightarrow> failure h gs ''No waste card or invalid target''
      | Some ti \<Rightarrow>
          if waste gs = [] then failure h gs ''No waste card or invalid target''
          else
            let crd = last (waste gs) in
            case pileAt (tableau gs) ti of
              None \<Rightarrow> (h, gs, Inl TypeError)
            | Some targetPile \<Rightarrow>
                if \<not> canMoveToTableau h crd targetPile
                then failure h gs ''Cannot move waste card to tableau''
                else
                  let gs1 = gs\<lparr>waste := butlast (waste gs)\<rparr>;
                      gs2 = gs1\<lparr>tableau := list_update (tableau gs1) (nat ti)
                                       (tableau gs1 ! nat ti @ [crd])\<rparr>;
                      gs3 = gs2\<lparr>moves := moves gs2 + 1\<rparr>;
                      gs4 = gs3\<lparr>score := score gs3 + 5\<rparr>
                  in succeeded h gs4)"

subsection \<open>executeMove, isValidMove, makeMove, undo, checkWinCondition\<close>

definition executeMove :: "heap \<Rightarrow> GameState \<Rightarrow> Move \<Rightarrow> MoveResult effect" where
  "executeMove h gs move =
     (case type_m move of
        MFoundation \<Rightarrow> moveToFoundation h gs move
      | MTableau \<Rightarrow> moveToTableau h gs move
      | MWasteToTableau \<Rightarrow> moveWasteToTableau h gs move
      | _ \<Rightarrow> failure h gs ''Invalid move type'')"

definition successOf :: "MoveResult effect \<Rightarrow> bool effect" where
  "successOf e = (case e of (h, gs, r) \<Rightarrow> (h, gs, map_sum (\<lambda>x. x) success r))"

definition isValidMove :: "heap \<Rightarrow> GameState \<Rightarrow> Move \<Rightarrow> bool effect" where
  "isValidMove h gs move =
     (case type_m move of
        MFoundation \<Rightarrow> successOf (moveToFoundation h gs move)
      | MTableau \<Rightarrow> successOf (moveToTableau h gs move)
      | MWasteToTableau \<Rightarrow> successOf (moveWasteToTableau h gs move)
      | _ \<Rightarrow> (h, gs, Inr False))"

definition snapshotOf :: "GameState \<Rightarrow> Snapshot" where
  "snapshotOf gs =
     \<lparr>stock = stock gs, waste = waste gs, foundations = foundations gs,
      tableau = tableau gs, gameStats = gameStats gs\<rparr>"

text \<open>
  \<open>result.newState\<close> is the \<open>gameState\<close> object itself, so setting \<open>canUndo\<close> on it
  changes the argument. \<open>push\<close> and \<open>pop\<close> work at the end of the history. The guards
  \<open>!gameState.gameHistory\<close> and \<open>!previousState\<close> test an array and an object, which are
  never falsy, and have no branch here. \<open>undo\<close> pops the history of its argument and
  returns a new state object.
\<close>

definition makeMove :: "heap \<Rightarrow> GameState \<Rightarrow> Move \<Rightarrow> MoveResult effect" where
  "makeMove h gs move =
     (let currentState = snapshotOf gs;
          gs1 = gs\<lparr>gameHistory := gameHistory gs @ [currentState]\<rparr>
      in case executeMove h gs1 move of
           (h', gs2, Inl e) \<Rightarrow> (h', gs2, Inl e)
         | (h', gs2, Inr result) \<Rightarrow>
             if success result
             then let gs3 = gs2\<lparr>canUndo := True\<rparr>
                  in (h', gs3, Inr (result\<lparr>newState := gs3\<rparr>))
             else (h', gs2, Inr result))"

definition undo :: "heap \<Rightarrow> GameState \<Rightarrow> MoveResult effect" where
  "undo h gs =
     (if gameHistory gs = [] then failure h gs ''No moves to undo''
      else
        let previousState = last (gameHistory gs);
            gs1 = gs\<lparr>gameHistory := butlast (gameHistory gs)\<rparr>;
            new = gs1\<lparr>stock := stock previousState,
                      waste := waste previousState,
                      foundations := foundations previousState,
                      tableau := tableau previousState,
                      gameHistory := gameHistory gs1,
                      gameStats := gameStats previousState,
                      selectedCard := None,
                      canUndo := (gameHistory gs1 \<noteq> [])\<rparr>
        in (h, gs1, Inr \<lparr>success = True, newState = new, error = None\<rparr>))"

definition checkWinCondition :: "GameState \<Rightarrow> bool" where
  "checkWinCondition gs = list_all (\<lambda>foundation. length foundation = 13)
                            (Object_values (foundations gs))"

subsection \<open>getAllPossibleMoves\<close>

definition newMove :: "MoveType \<Rightarrow> string \<Rightarrow> Location option \<Rightarrow> int option \<Rightarrow> int option \<Rightarrow> Move" where
  "newMove t cid st si ti =
     \<lparr>type_m = t, cardId = cid, sourceType = st, sourceIndex = si, targetIndex = ti,
      fromLocation = None, toLocation = None, fromPosition = None, toPosition = None\<rparr>"

definition foundationMoves :: "heap \<Rightarrow> GameState \<Rightarrow> Move list" where
  "foundationMoves h gs = concat (map (\<lambda>(index, pile).
       if pile \<noteq> [] then
         let topCard = last pile in
         if faceUp (h topCard) then
           let foundation = foundations gs (suit (h topCard)) in
           if (foundation = [] \<and> rank (h topCard) = RA) \<or>
              (foundation \<noteq> [] \<and> value_c (h topCard) = value_c (h (last foundation)) + 1)
           then [newMove MFoundation (id_c (h topCard)) (Some LTableau) (Some (int index)) None]
           else []
         else []
       else [])
     (enumerate 0 (tableau gs)))"

definition tableauMoves :: "heap \<Rightarrow> GameState \<Rightarrow> Move list" where
  "tableauMoves h gs = concat (map (\<lambda>(sourceIndex, sourcePile).
       if sourcePile \<noteq> [] then
         let topCard = last sourcePile in
         if faceUp (h topCard) then
           concat (map (\<lambda>(targetIndex, targetPile).
               if sourceIndex \<noteq> targetIndex \<and> canMoveToTableau h topCard targetPile
               then [newMove MTableau (id_c (h topCard)) (Some LTableau)
                       (Some (int sourceIndex)) (Some (int targetIndex))]
               else [])
             (enumerate 0 (tableau gs)))
         else []
       else [])
     (enumerate 0 (tableau gs)))"

definition wasteMoves :: "heap \<Rightarrow> GameState \<Rightarrow> Move list" where
  "wasteMoves h gs =
     (if waste gs \<noteq> [] then
        let wasteCard = last (waste gs) in
        concat (map (\<lambda>(index, pile).
            if canMoveToTableau h wasteCard pile
            then [newMove MWasteToTableau (id_c (h wasteCard)) (Some LWaste) None
                    (Some (int index))]
            else [])
          (enumerate 0 (tableau gs)))
      else [])"

definition getAllPossibleMoves :: "heap \<Rightarrow> GameState \<Rightarrow> Move list" where
  "getAllPossibleMoves h gs = foundationMoves h gs @ tableauMoves h gs @ wasteMoves h gs"

subsection \<open>Reading the result of a call\<close>

definition heap_after :: "'a effect \<Rightarrow> heap" where
  "heap_after e = fst e"

definition state_after :: "'a effect \<Rightarrow> GameState" where
  "state_after e = fst (snd e)"

definition outcome :: "'a effect \<Rightarrow> exn + 'a" where
  "outcome e = snd (snd e)"

definition threw :: "'a effect \<Rightarrow> bool" where
  "threw e = (case outcome e of Inl TypeError \<Rightarrow> True | Inr _ \<Rightarrow> False)"

definition succeeds :: "MoveResult effect \<Rightarrow> bool" where
  "succeeds e = (case outcome e of Inr r \<Rightarrow> success r | Inl _ \<Rightarrow> False)"

definition result_state :: "MoveResult effect \<Rightarrow> GameState" where
  "result_state e = (case outcome e of Inr r \<Rightarrow> newState r | Inl _ \<Rightarrow> state_after e)"

definition result_error :: "MoveResult effect \<Rightarrow> string option" where
  "result_error e = (case outcome e of Inr r \<Rightarrow> error r | Inl _ \<Rightarrow> None)"

text \<open>
  Structural equality of two boards, each read through its store: the cards of every pile
  in order, with all their fields, the move counter and the score.
\<close>

definition sameBoard :: "heap \<Rightarrow> GameState \<Rightarrow> heap \<Rightarrow> GameState \<Rightarrow> bool" where
  "sameBoard h gs h' gs' =
     (map h (stock gs) = map h' (stock gs') \<and>
      map h (waste gs) = map h' (waste gs') \<and>
      map (map h) (tableau gs) = map (map h') (tableau gs') \<and>
      map (map h) (Object_values (foundations gs)) = map (map h') (Object_values (foundations gs')) \<and>
      moves gs = moves gs' \<and> score gs = score gs')"

section \<open>Dealing (src/unnamed/part_004)\<close>

text \<open>
  The suit symbols are the UTF-8 bytes of U+2660, U+2665, U+2666 and U+2663.
\<close>

definition suits :: "Suit list" where
  "suits = [Spades, Hearts, Diamonds, Clubs]"

definition ranks :: "Rank list" where
  "ranks = [RA, R2, R3, R4, R5, R6, R7, R8, R9, R10, RJ, RQ, RK]"

fun suit_str :: "Suit \<Rightarrow> string" where
  "suit_str Spades = [CHR 0xE2, CHR 0x99, CHR 0xA0]"
| "suit_str Hearts = [CHR 0xE2, CHR 0x99, CHR 0xA5]"
| "suit_str Diamonds = [CHR 0xE2, CHR 0x99, CHR 0xA6]"
| "suit_str Clubs = [CHR 0xE2, CHR 0x99, CHR 0xA3]"

fun rank_str :: "Rank \<Rightarrow> string" where
  "rank_str RA = ''A''" | "rank_str R2 = ''2''" | "rank_str R3 = ''3''"
| "rank_str R4 = ''4''" | "rank_str R5 = ''5''" | "rank_str R6 = ''6''"
| "rank_str R7 = ''7''" | "rank_str R8 = ''8''" | "rank_str R9 = ''9''"
| "rank_str R10 = ''10''" | "rank_str RJ = ''J''" | "rank_str RQ = ''Q''"
| "rank_str RK = ''K''"

text \<open>\<open>rank === 'A' ? 1 : rank === 'J' ? 11 : rank === 'Q' ? 12 : rank === 'K' ? 13 : parseInt(rank)\<close>\<close>

fun rank_value :: "Rank \<Rightarrow> int" where
  "rank_value RA = 1" | "rank_value RJ = 11" | "rank_value RQ = 12" | "rank_value RK = 13"
| "rank_value R2 = 2" | "rank_value R3 = 3" | "rank_value R4 = 4" | "rank_value R5 = 5"
| "rank_value R6 = 6" | "rank_value R7 = 7" | "rank_value R8 = 8" | "rank_value R9 = 9"
| "rank_value R10 = 10"

text \<open>
  The module-level \<open>createDeck\<close> (ids \<open>suit-rank\<close>) and \<open>GameEngine.createDeck\<close>
  (ids \<open>rank-suit\<close>): the cards in the order of the two nested loops, each with its index
  as \<open>position\<close>.
\<close>

definition createDeck :: "Card list" where
  "createDeck = map (\<lambda>(k, s, r).
       \<lparr>id_c = suit_str s @ ''-'' @ rank_str r, suit = s, rank = r, value_c = rank_value r,
        faceUp = False, location = LStock, position = int k\<rparr>)
     (enumerate 0 (List.product suits ranks))"

definition createDeck_engine :: "Card list" where
  "createDeck_engine = map (\<lambda>(k, s, r).
       \<lparr>id_c = rank_str r @ ''-'' @ suit_str s, suit = s, rank = r, value_c = rank_value r,
        faceUp = False, location = LStock, position = int k\<rparr>)
     (enumerate 0 (List.product suits ranks))"

text \<open>
  Fisher-Yates: \<open>rnd i\<close> is the value of \<open>Math.floor(Math.random() * (i + 1))\<close> in the
  iteration with index \<open>i\<close>, a number from \<open>0\<close> to \<open>i\<close>.
\<close>

fun shuffle_loop :: "(nat \<Rightarrow> nat) \<Rightarrow> nat \<Rightarrow> 'a list \<Rightarrow> 'a list" where
  "shuffle_loop rnd 0 shuffled = shuffled"
| "shuffle_loop rnd (Suc k) shuffled =
     (let i = Suc k; j = rnd i
      in shuffle_loop rnd k (shuffled[i := shuffled ! j, j := shuffled ! i]))"

definition shuffleDeck :: "(nat \<Rightarrow> nat) \<Rightarrow> 'a list \<Rightarrow> 'a list" where
  "shuffleDeck rnd deck = shuffle_loop rnd (length deck - 1) deck"

definition rnd_ok :: "(nat \<Rightarrow> nat) \<Rightarrow> bool" where
  "rnd_ok rnd = (\<forall>i. rnd i \<le> i)"

text \<open>The object literal that both \<open>createInitialGameState\<close> and \<open>initializeGame\<close> return.\<close>

definition freshState :: "ref list \<Rightarrow> ref list list \<Rightarrow> GameState" where
  "freshState st tab =
     \<lparr>stock = st, waste = [], foundations = (\<lambda>_. []), tableau = tab,
      gameStats = \<lparr>time_st = 0, moves_st = 0, score_st = 0\<rparr>,
      selectedCard = None, moves = 0, score = 0, time = 0, isWon = False, canUndo = False,
      gameHistory = [], drawMode = 1, settings = DefaultSettings\<rparr>"

text \<open>
  A deal takes the store before the deal and the draws of the shuffle as arguments and
  returns the store with the dealt state.

  \<open>dealCards\<close> copies each deck card into a new object (\<open>{ ...deck[cardIndex] }\<close>); the
  copies are allocated at consecutive addresses, so the copy of \<open>deck[k]\<close> lives at
  address \<open>k\<close>. The deck itself is never mutated on this path and is a list of values.
  \<open>deal_order\<close> lists the pairs of loop indices in the order in which the nested loops
  of \<open>dealCards\<close> and of \<open>dealTableau\<close> visit them.
\<close>

definition dealCards_tableau_step ::
  "Card list \<Rightarrow> nat \<times> nat \<Rightarrow> heap \<times> ref list list \<times> nat \<Rightarrow> heap \<times> ref list list \<times> nat" where
  "dealCards_tableau_step deck = (\<lambda>(col, row) (h, tab, cardIndex).
     (h(cardIndex := (deck ! cardIndex)\<lparr>faceUp := (row = col)\<rparr>),
      list_update tab row (tab ! row @ [cardIndex]),
      cardIndex + 1))"

definition dealCards_stock_step :: "Card list \<Rightarrow> nat \<Rightarrow> heap \<times> ref list \<Rightarrow> heap \<times> ref list" where
  "dealCards_stock_step deck = (\<lambda>i (h, st).
     (h(i := (deck ! i)\<lparr>faceUp := False\<rparr>), st @ [i]))"

definition deal_order :: "(nat \<times> nat) list" where
  "deal_order = concat (map (\<lambda>a. map (\<lambda>b. (a, b)) [a..<7]) [0..<7])"

definition dealCards :: "heap \<Rightarrow> Card list \<Rightarrow> heap \<times> ref list list \<times> ref list" where
  "dealCards h0 deck =
     (case fold (dealCards_tableau_step deck) deal_order (h0, replicate 7 [], 0) of
        (h1, tab, cardIndex) \<Rightarrow>
          (case fold (dealCards_stock_step deck) [cardIndex..<length deck] (h1, []) of
             (h2, st) \<Rightarrow> (h2, tab, st)))"

definition createInitialGameState :: "heap \<Rightarrow> (nat \<Rightarrow> nat) \<Rightarrow> heap \<times> GameState" where
  "createInitialGameState h0 rnd =
     (let deck = createDeck;
          shuffledDeck = shuffleDeck rnd deck
      in case dealCards h0 shuffledDeck of (h, tab, st) \<Rightarrow> (h, freshState st tab))"

text \<open>
  Both deals are only ever given the full deck of fifty-two cards, and the statements about
  them are for such decks.

  \<open>GameEngine.initializeGame\<close> deals the deck objects themselves: \<open>createDeck\<close> allocates
  them at addresses \<open>0\<close> to \<open>51\<close>, \<open>dealTableau\<close> writes \<open>faceUp\<close>, \<open>location\<close> and
  \<open>position\<close> into the object at \<open>deck[i * 7 + j]\<close>, and the stock is
  \<open>shuffledDeck.slice(28)\<close>.
\<close>

definition allocDeck :: "heap \<Rightarrow> Card list \<Rightarrow> heap \<times> ref list" where
  "allocDeck h0 cs = ((\<lambda>r. if r < length cs then cs ! r else h0 r), [0..<length cs])"

definition dealTableau_step :: "ref list \<Rightarrow> nat \<times> nat \<Rightarrow> heap \<times> ref list list \<Rightarrow> heap \<times> ref list list" where
  "dealTableau_step deck = (\<lambda>(i, j) (h, tab).
     (let crd = deck ! (i * 7 + j)
      in (h(crd := (h crd)\<lparr>faceUp := (i = j), location := LTableau, position := int j\<rparr>),
          list_update tab j (tab ! j @ [crd]))))"

definition dealTableau :: "heap \<Rightarrow> ref list \<Rightarrow> heap \<times> ref list list" where
  "dealTableau h deck = fold (dealTableau_step deck) deal_order (h, replicate 7 [])"

definition initializeGame :: "heap \<Rightarrow> (nat \<Rightarrow> nat) \<Rightarrow> heap \<times> GameState" where
  "initializeGame h0 rnd =
     (case allocDeck h0 createDeck_engine of (h1, deck) \<Rightarrow>
        let shuffledDeck = shuffleDeck rnd deck
        in case dealTableau h1 shuffledDeck of (h2, tab) \<Rightarrow>
             (h2, freshState (drop 28 shuffledDeck) tab))"

section \<open>Well-formed boards\<close>

text \<open>
  A card id names a suit and a rank (\<open>rank-suit\<close> or \<open>suit-rank\<close>): cards of a board
  that carry the same id show the same face. A board without duplicate ids satisfies this.
\<close>

definition ids_consistent :: "heap \<Rightarrow> GameState \<Rightarrow> bool" where
  "ids_consistent h gs =
     (\<forall>a \<in> set (allCards gs). \<forall>b \<in> set (allCards gs).
        id_c (h a) = id_c (h b) \<longrightarrow>
          suit (h a) = suit (h b) \<and> rank (h a) = rank (h b) \<and> value_c (h a) = value_c (h b))"

section \<open>Notions used in the statements\<close>

text \<open>The top card of every non-empty tableau column is face-up.\<close>

definition tops_faceUp :: "heap \<Rightarrow> ref list list \<Rightarrow> bool" where
  "tops_faceUp h tab = list_all (\<lambda>pile. pile = [] \<or> faceUp (h (last pile))) tab"

text \<open>In a freshly dealt column only the last dealt card is face-up.\<close>

definition only_top_faceUp :: "heap \<Rightarrow> ref list \<Rightarrow> bool" where
  "only_top_faceUp h pile =
     (pile \<noteq> [] \<and> faceUp (h (last pile)) \<and> list_all (\<lambda>r. \<not> faceUp (h r)) (butlast pile))"

text \<open>The card objects that lie face-down on top of a column.\<close>

definition hiddenTops :: "heap \<Rightarrow> ref list list \<Rightarrow> ref set" where
  "hiddenTops h tab =
     set (map last (filter (\<lambda>pile. pile \<noteq> [] \<and> \<not> faceUp (h (last pile))) tab))"


text \<open>
  The board on which \<open>moveToFoundation\<close> and \<open>moveToTableau\<close> call
  \<open>revealHiddenCards\<close>: the statements of the mover between its last check and that call
  (card or run taken from its source, pushed onto the target, \<open>moves\<close> and \<open>score\<close>
  updated).
\<close>

definition foundationPlaced :: "heap \<Rightarrow> GameState \<Rightarrow> ref \<Rightarrow> GameState" where
  "foundationPlaced h gs crd =
     (let gs1 = removeCardFromSource h gs crd;
          gs2 = gs1\<lparr>foundations := (foundations gs1)
                  (suit (h crd) := foundations gs1 (suit (h crd)) @ [crd])\<rparr>;
          gs3 = gs2\<lparr>moves := moves gs2 + 1\<rparr>
      in gs3\<lparr>score := score gs3 + 10\<rparr>)"

definition tableauPlaced :: "heap \<Rightarrow> GameState \<Rightarrow> ref \<Rightarrow> nat \<Rightarrow> GameState" where
  "tableauPlaced h gs crd ti =
     (let cardsToMove = getCardsToMove h gs crd;
          gs1 = removeAll_from_source h cardsToMove gs;
          gs2 = gs1\<lparr>tableau := list_update (tableau gs1) ti (tableau gs1 ! ti @ cardsToMove)\<rparr>;
          gs3 = gs2\<lparr>moves := moves gs2 + 1\<rparr>
      in gs3\<lparr>score := score gs3 + int (length cardsToMove)\<rparr>)"


text \<open>
  The boards the two entry points deal, and what can follow a board: any call of
  \<open>makeMove\<close> or \<open>isValidMove\<close>, whatever it returns, leaves the (mutated) argument;
  an \<open>undo\<close> that returns leaves the state it returns.
\<close>

inductive fresh_deal :: "heap \<times> GameState \<Rightarrow> bool" where
  by_createInitialGameState: "rnd_ok rnd \<Longrightarrow> fresh_deal (createInitialGameState h0 rnd)"
| by_initializeGame: "rnd_ok rnd \<Longrightarrow> fresh_deal (initializeGame h0 rnd)"

inductive steps :: "heap \<times> GameState \<Rightarrow> heap \<times> GameState \<Rightarrow> bool" where
  start: "steps w w"
| after_makeMove:
    "steps w (h, gs) \<Longrightarrow> makeMove h gs m = (h', gs', r) \<Longrightarrow> steps w (h', gs')"
| after_isValidMove:
    "steps w (h, gs) \<Longrightarrow> isValidMove h gs m = (h', gs', b) \<Longrightarrow> steps w (h', gs')"
| after_undo:
    "steps w (h, gs) \<Longrightarrow> undo h gs = (h', gs', Inr res) \<Longrightarrow> steps w (h', newState res)"

section \<open>The deals and moves of the examples\<close>

text \<open>
  The store before a deal; a cell that has not been allocated is never read.
\<close>

definition blankStore :: heap where
  "blankStore = (\<lambda>_. \<lparr>id_c = [], suit = Spades, rank = RA, value_c = 0, faceUp = False,
                         location = LStock, position = 0\<rparr>)"

text \<open>
  The Fisher-Yates run in which every draw is \<open>j = i\<close> leaves the deck in order, spades,
  hearts, diamonds, clubs, each from ace to king. \<open>createInitialGameState\<close> then deals the
  columns \<open>[0]\<close>, \<open>[1, 7]\<close>, \<open>[2, 8, 13]\<close>, \<open>[3, 9, 14, 18]\<close>, \<open>[4, 10, 15, 19, 22]\<close>,
  \<open>[5, 11, 16, 20, 23, 25]\<close>, \<open>[6, 12, 17, 21, 24, 26, 27]\<close> (deck positions, the last of
  each column face-up) and the stock \<open>28, ..., 51\<close>: the third column is the three of
  spades, the nine of spades and, face-up, the ace of hearts.
\<close>

definition identityShuffle :: "nat \<Rightarrow> nat" where
  "identityShuffle i = i"

definition moduleDeal :: "heap \<times> GameState" where
  "moduleDeal = createInitialGameState blankStore identityShuffle"

definition engineDeal :: "heap \<times> GameState" where
  "engineDeal = initializeGame blankStore identityShuffle"

text \<open>
  The ace of hearts to its foundation, as \<open>getAllPossibleMoves\<close> builds the move; the
  eight of spades, top of the second column, to its foundation; the ace of hearts to a column
  that does not exist; the ace of diamonds, face-down under the two of diamonds in the
  seventh column, and the ace of clubs, in the middle of the stock, to their foundations;
  and the move the board component sends when the stock is clicked.
\<close>

definition aceOfHearts :: Move where
  "aceOfHearts = newMove MFoundation (id_c (createDeck ! 13)) (Some LTableau) (Some 2) None"

definition eightOfSpades :: Move where
  "eightOfSpades = newMove MFoundation (id_c (createDeck ! 7)) (Some LTableau) (Some 1) None"

definition aceOfHeartsToColumnSeven :: Move where
  "aceOfHeartsToColumnSeven =
     newMove MTableau (id_c (createDeck ! 13)) (Some LTableau) (Some 2) (Some 7)"

definition aceOfDiamonds :: Move where
  "aceOfDiamonds = newMove MFoundation (id_c (createDeck ! 26)) None None None"

definition aceOfClubs :: Move where
  "aceOfClubs = newMove MFoundation (id_c (createDeck ! 39)) None None None"

definition stockClick :: Move where
  "stockClick = newMove MStock ''stock'' None None None"

definition afterAce :: "MoveResult effect" where
  "afterAce = makeMove (fst moduleDeal) (snd moduleDeal) aceOfHearts"

definition afterAceUndone :: "MoveResult effect" where
  "afterAceUndone = undo (heap_after afterAce) (result_state afterAce)"



definition sevenOfDiamondsFaceDown :: "heap \<times> GameState" where
  "sevenOfDiamondsFaceDown =
     (fst moduleDeal, (snd moduleDeal)\<lparr>stock := [28..<32] @ [33..<52], waste := [32]\<rparr>)"

definition sevenOfDiamondsToColumnTwo :: Move where
  "sevenOfDiamondsToColumnTwo =
     newMove MWasteToTableau (id_c (createDeck ! 32)) (Some LWaste) None (Some 1)"

section \<open>Auxiliary notions of the proofs\<close>

definition grows :: "heap \<Rightarrow> heap \<Rightarrow> bool" where
  "grows h h' = (\<forall>r. faceUp (h r) \<longrightarrow> faceUp (h' r))"

definition deal_inv :: "heap \<Rightarrow> GameState \<Rightarrow> bool" where
  "deal_inv h gs =
     (tops_faceUp h (tableau gs) \<and> waste gs = [] \<and>
      list_all (\<lambda>s. tops_faceUp h (tableau s) \<and> waste s = []) (gameHistory gs))"

definition dealt_columns :: "ref list list" where
  "dealt_columns = [[0], [1, 7], [2, 8, 13], [3, 9, 14, 18], [4, 10, 15, 19, 22],
                    [5, 11, 16, 20, 23, 25], [6, 12, 17, 21, 24, 26, 27]]"

definition dealt_tops :: "ref list" where
  "dealt_tops = [0, 7, 13, 18, 22, 25, 27]"

definition dealtHeap :: "heap \<Rightarrow> Card list \<Rightarrow> heap" where
  "dealtHeap h0 deck =
     (\<lambda>r. if r < 52 then (deck ! r)\<lparr>faceUp := (r \<in> set dealt_tops)\<rparr> else h0 r)"

definition engine_columns :: "ref list \<Rightarrow> ref list list" where
  "engine_columns d =
     [[d ! 0], [d ! 1, d ! 8], [d ! 2, d ! 9, d ! 16], [d ! 3, d ! 10, d ! 17, d ! 24],
      [d ! 4, d ! 11, d ! 18, d ! 25, d ! 32], [d ! 5, d ! 12, d ! 19, d ! 26, d ! 33, d ! 40],
      [d ! 6, d ! 13, d ! 20, d ! 27, d ! 34, d ! 41, d ! 48]]"

definition deal_target :: "ref list \<Rightarrow> nat \<times> nat \<Rightarrow> ref" where
  "deal_target d = (\<lambda>(i, j). d ! (i * 7 + j))"

definition deal_write :: "ref list \<Rightarrow> nat \<times> nat \<Rightarrow> heap \<Rightarrow> heap" where
  "deal_write d = (\<lambda>(i, j) h. h(d ! (i * 7 + j) :=
      (h (d ! (i * 7 + j)))\<lparr>faceUp := (i = j), location := LTableau, position := int j\<rparr>))"

definition deal_push :: "ref list \<Rightarrow> nat \<times> nat \<Rightarrow> ref list list \<Rightarrow> ref list list" where
  "deal_push d = (\<lambda>(i, j) tab. list_update tab j (tab ! j @ [d ! (i * 7 + j)]))"

text \<open>
  The cards of a history entry, and the invariant of the boards that follow a deal by
  \<open>createInitialGameState\<close>: the fifty-two card objects it allocates, each in exactly one
  place, with pairwise different ids, also in every history entry.
\<close>

definition snapshotCards :: "Snapshot \<Rightarrow> ref list" where
  "snapshotCards s =
     stock s @ waste s @ concat (tableau s) @ concat (Object_values (foundations s))"

definition conserved :: "heap \<Rightarrow> GameState \<Rightarrow> bool" where
  "conserved h gs =
     (mset (allCards gs) = mset [0..<52] \<and>
      inj_on (\<lambda>r. id_c (h r)) {..<52} \<and>
      (\<lambda>r. id_c (h r)) ` {..<52} = set (map id_c createDeck) \<and>
      (\<forall>s \<in> set (gameHistory gs). mset (snapshotCards s) = mset [0..<52]))"

section \<open>Shuffling and the two decks\<close>

lemma length_shuffle_loop: "length (shuffle_loop rnd k xs) = length xs"
  by (induction k arbitrary: xs) (simp_all add: Let_def)

lemma length_shuffleDeck: "length (shuffleDeck rnd deck) = length deck"
  by (simp add: shuffleDeck_def length_shuffle_loop)

lemma mset_shuffle_loop:
  "rnd_ok rnd \<Longrightarrow> k < length xs \<Longrightarrow> mset (shuffle_loop rnd k xs) = mset xs"
proof (induction k arbitrary: xs)
  case 0
  then show ?case by simp
next
  case (Suc k)
  from Suc.prems have j: "rnd (Suc k) < length xs"
    unfolding rnd_ok_def by (meson le_less_trans)
  have "mset (xs[Suc k := xs ! rnd (Suc k), rnd (Suc k) := xs ! Suc k]) = mset xs"
    using Suc.prems(2) j by (simp add: mset_swap)
  with Suc show ?case by (simp add: Let_def)
qed

lemma mset_shuffleDeck: "rnd_ok rnd \<Longrightarrow> mset (shuffleDeck rnd deck) = mset deck"
  by (cases deck) (simp_all add: shuffleDeck_def mset_shuffle_loop)

lemma distinct_shuffleDeck: "rnd_ok rnd \<Longrightarrow> distinct deck \<Longrightarrow> distinct (shuffleDeck rnd deck)"
  using mset_shuffleDeck[of rnd deck] by (metis mset_eq_imp_distinct_iff)

lemma rnd_ok_identityShuffle: "rnd_ok identityShuffle"
  by (simp add: rnd_ok_def identityShuffle_def)

lemma shuffle_loop_identity: "shuffle_loop identityShuffle k xs = xs"
  by (induction k arbitrary: xs) (simp_all add: identityShuffle_def Let_def)

lemma shuffleDeck_identity: "shuffleDeck identityShuffle xs = xs"
  by (simp add: shuffleDeck_def shuffle_loop_identity)

lemma length_createDeck: "length createDeck = 52"
  by (simp add: createDeck_def suits_def ranks_def)

lemma length_createDeck_engine: "length createDeck_engine = 52"
  by (simp add: createDeck_engine_def suits_def ranks_def)

lemma ids_createDeck: "distinct (map id_c createDeck)"
  by (simp add: createDeck_def suits_def ranks_def)

lemma ids_createDeck_engine: "distinct (map id_c createDeck_engine)"
  by (simp add: createDeck_engine_def suits_def ranks_def)

section \<open>revealHiddenCards\<close>

text \<open>
  The loop only ever sets \<open>faceUp\<close> to true, leaves every top face-up, adds 5 for each
  card object it flips, and touches nothing else. A card object that is the face-down top of
  two columns is flipped, and paid for, once.
\<close>

lemma grows_refl: "grows h h" by (simp add: grows_def)

lemma grows_trans: "grows h h' \<Longrightarrow> grows h' h'' \<Longrightarrow> grows h h''" by (simp add: grows_def)

lemma tops_faceUp_grows: "grows h h' \<Longrightarrow> tops_faceUp h tab \<Longrightarrow> tops_faceUp h' tab"
  by (auto simp: tops_faceUp_def grows_def list_all_iff)

lemma reveal_loop_grows: "reveal_loop piles h sc = (h', sc') \<Longrightarrow> grows h h'"
proof (induction piles arbitrary: h sc)
  case Nil
  then show ?case by (simp add: grows_def)
next
  case (Cons p ps)
  show ?case
  proof (cases "p \<noteq> [] \<and> \<not> faceUp (h (last p))")
    case True
    let ?h1 = "h(last p := (h (last p))\<lparr>faceUp := True\<rparr>)"
    from True Cons.prems have "reveal_loop ps ?h1 (sc + 5) = (h', sc')" by simp
    from Cons.IH[OF this] have "grows ?h1 h'" .
    moreover have "grows h ?h1" by (simp add: grows_def)
    ultimately show ?thesis by (rule grows_trans[rotated])
  next
    case False
    with Cons show ?thesis by auto
  qed
qed

lemma reveal_loop_tops: "reveal_loop piles h sc = (h', sc') \<Longrightarrow> tops_faceUp h' piles"
proof (induction piles arbitrary: h sc)
  case Nil
  then show ?case by (simp add: tops_faceUp_def)
next
  case (Cons p ps)
  show ?case
  proof (cases "p \<noteq> [] \<and> \<not> faceUp (h (last p))")
    case True
    let ?h1 = "h(last p := (h (last p))\<lparr>faceUp := True\<rparr>)"
    from True Cons.prems have step: "reveal_loop ps ?h1 (sc + 5) = (h', sc')" by simp
    from reveal_loop_grows[OF step] have "faceUp (h' (last p))" by (simp add: grows_def)
    with Cons.IH[OF step] show ?thesis by (simp add: tops_faceUp_def)
  next
    case False
    with Cons.prems have step: "reveal_loop ps h sc = (h', sc')" by auto
    from reveal_loop_grows[OF step] False have "p = [] \<or> faceUp (h' (last p))"
      by (auto simp: grows_def)
    with Cons.IH[OF step] show ?thesis by (simp add: tops_faceUp_def)
  qed
qed

lemma hiddenTops_Cons_hidden:
  assumes "p \<noteq> []" "\<not> faceUp (h (last p))"
  shows "hiddenTops h (p # ps) =
         insert (last p) (hiddenTops (h(last p := (h (last p))\<lparr>faceUp := True\<rparr>)) ps)"
  using assms by (auto simp: hiddenTops_def image_iff)

lemma hiddenTops_Cons_shown:
  assumes "p = [] \<or> faceUp (h (last p))"
  shows "hiddenTops h (p # ps) = hiddenTops h ps"
  using assms by (auto simp: hiddenTops_def)



lemma reveal_loop_cards:
  "reveal_loop piles h sc = (h', sc') \<Longrightarrow>
   h' r = (if r \<in> hiddenTops h piles then (h r)\<lparr>faceUp := True\<rparr> else h r)"
proof (induction piles arbitrary: h sc)
  case Nil
  then show ?case by (simp add: hiddenTops_def)
next
  case (Cons p ps)
  show ?case
  proof (cases "p \<noteq> [] \<and> \<not> faceUp (h (last p))")
    case True
    let ?h1 = "h(last p := (h (last p))\<lparr>faceUp := True\<rparr>)"
    from True Cons.prems have step: "reveal_loop ps ?h1 (sc + 5) = (h', sc')" by simp
    define X where "X = hiddenTops ?h1 ps"
    have notin: "last p \<notin> X" by (auto simp: X_def hiddenTops_def)
    have ins: "hiddenTops h (p # ps) = insert (last p) X"
      using True unfolding X_def by (intro hiddenTops_Cons_hidden) auto
    from Cons.IH[OF step] have a: "h' r = (if r \<in> X then (?h1 r)\<lparr>faceUp := True\<rparr> else ?h1 r)"
      unfolding X_def .
    show ?thesis unfolding ins using a notin by auto
  next
    case False
    with Cons.prems have step: "reveal_loop ps h sc = (h', sc')" by auto
    from False have "hiddenTops h (p # ps) = hiddenTops h ps"
      by (intro hiddenTops_Cons_shown) auto
    with Cons.IH[OF step] show ?thesis by simp
  qed
qed

lemma revealHiddenCards_frame:
  assumes "revealHiddenCards h gs = (h', gs')"
  shows "grows h h'" "tops_faceUp h' (tableau gs')" "tableau gs' = tableau gs"
    "waste gs' = waste gs" "gameHistory gs' = gameHistory gs"
proof -
  obtain sc where r: "reveal_loop (tableau gs) h (score gs) = (h', sc)" and g: "gs' = gs\<lparr>score := sc\<rparr>"
    using assms by (auto simp: revealHiddenCards_def split: prod.splits)
  show "grows h h'" using r by (rule reveal_loop_grows)
  show "tops_faceUp h' (tableau gs')" using reveal_loop_tops[OF r] g by simp
  show "tableau gs' = tableau gs" "waste gs' = waste gs" "gameHistory gs' = gameHistory gs"
    using g by simp_all
qed


section \<open>The movers\<close>

text \<open>
  A mover either refuses and leaves store and board as they are, or runs to its end. The
  case lemmas name the board on which \<open>revealHiddenCards\<close> then runs.
\<close>

lemma removeCardFromSource_frame:
  "gameHistory (removeCardFromSource h gs c) = gameHistory gs \<and>
   moves (removeCardFromSource h gs c) = moves gs \<and>
   score (removeCardFromSource h gs c) = score gs \<and>
   (waste gs = [] \<longrightarrow> waste (removeCardFromSource h gs c) = [])"
  by (simp add: removeCardFromSource_def Let_def split: option.splits)

lemma removeAll_from_source_frame:
  "gameHistory (removeAll_from_source h cs gs) = gameHistory gs \<and>
   (waste gs = [] \<longrightarrow> waste (removeAll_from_source h cs gs) = [])"
  by (induction cs arbitrary: gs) (simp_all add: removeCardFromSource_frame)

lemma moveToFoundation_cases:
  assumes "moveToFoundation h gs m = (h', gs', r)"
  shows "(h' = h \<and> gs' = gs \<and>
          (\<exists>msg. r = Inr \<lparr>success = False, newState = gs, error = Some msg\<rparr>)) \<or>
         (\<exists>crd. findCard h gs (cardId m) = Some crd \<and>
                revealHiddenCards h (foundationPlaced h gs crd) = (h', gs') \<and>
                r = Inr \<lparr>success = True, newState = gs', error = None\<rparr>)"
proof (cases "findCard h gs (cardId m)")
  case None
  with assms show ?thesis by (auto simp: moveToFoundation_def failure_def)
next
  case (Some crd)
  show ?thesis
  proof (cases "(foundations gs (suit (h crd)) = [] \<and> rank (h crd) \<noteq> RA) \<or>
      (foundations gs (suit (h crd)) \<noteq> [] \<and>
         value_c (h crd) \<noteq> value_c (h (last (foundations gs (suit (h crd))))) + 1)")
    case True
    with assms Some show ?thesis
      by (auto simp: moveToFoundation_def failure_def Let_def)
  next
    case False
    obtain h2 gs2 where rv: "revealHiddenCards h (foundationPlaced h gs crd) = (h2, gs2)"
      by (cases "revealHiddenCards h (foundationPlaced h gs crd)") auto
    from False Some have "moveToFoundation h gs m = succeeded h2 gs2"
      unfolding moveToFoundation_def
      using rv by (auto simp: Let_def foundationPlaced_def)
    with assms rv Some show ?thesis by (auto simp: succeeded_def)
  qed
qed

lemma moveToTableau_cases:
  assumes "moveToTableau h gs m = (h', gs', r)"
  shows "(h' = h \<and> gs' = gs \<and>
          (r = Inl TypeError \<or>
           (\<exists>msg. r = Inr \<lparr>success = False, newState = gs, error = Some msg\<rparr>))) \<or>
         (\<exists>crd ti. findCard h gs (cardId m) = Some crd \<and> targetIndex m = Some (int ti) \<and>
                ti < length (tableau gs) \<and> canMoveToTableau h crd (tableau gs ! ti) \<and>
                revealHiddenCards h (tableauPlaced h gs crd ti) = (h', gs') \<and>
                r = Inr \<lparr>success = True, newState = gs', error = None\<rparr>)"
proof (cases "findCard h gs (cardId m)")
  case None
  with assms show ?thesis by (auto simp: moveToTableau_def failure_def)
next
  case (Some crd)
  show ?thesis
  proof (cases "targetIndex m")
    case None
    with assms Some show ?thesis by (auto simp: moveToTableau_def failure_def)
  next
    case (Some i)
    note ti = this
    show ?thesis
    proof (cases "pileAt (tableau gs) i")
      case None
      with assms \<open>findCard h gs (cardId m) = Some crd\<close> ti show ?thesis
        by (auto simp: moveToTableau_def)
    next
      case (Some targetPile)
      then have rng: "0 \<le> i" "nat i < length (tableau gs)" "targetPile = tableau gs ! nat i"
        by (auto simp: pileAt_def split: if_splits)
      show ?thesis
      proof (cases "canMoveToTableau h crd targetPile")
        case False
        with assms \<open>findCard h gs (cardId m) = Some crd\<close> ti Some show ?thesis
          by (auto simp: moveToTableau_def failure_def)
      next
        case True
        obtain h2 gs2 where rv: "revealHiddenCards h (tableauPlaced h gs crd (nat i)) = (h2, gs2)"
          by (cases "revealHiddenCards h (tableauPlaced h gs crd (nat i))") auto
        from True \<open>findCard h gs (cardId m) = Some crd\<close> ti Some
        have "moveToTableau h gs m = succeeded h2 gs2"
          unfolding moveToTableau_def
          using rv by (simp add: Let_def tableauPlaced_def)
        with assms rv \<open>findCard h gs (cardId m) = Some crd\<close> ti rng True show ?thesis
          by (auto simp: succeeded_def intro!: exI[of _ "nat i"])
      qed
    qed
  qed
qed

lemma moveWasteToTableau_cases:
  assumes "moveWasteToTableau h gs m = (h', gs', r)"
  shows "h' = h \<and> (gs' = gs \<or>
           (\<exists>ti. ti < length (tableau gs) \<and> waste gs \<noteq> [] \<and>
              gs' = gs\<lparr>waste := butlast (waste gs),
                        tableau := list_update (tableau gs) ti (tableau gs ! ti @ [last (waste gs)]),
                        moves := moves gs + 1, score := score gs + 5\<rparr>))"
proof (cases "targetIndex m")
  case None
  with assms show ?thesis by (simp add: moveWasteToTableau_def failure_def)
next
  case (Some i)
  note ti = this
  show ?thesis
  proof (cases "waste gs = []")
    case True
    with assms ti show ?thesis by (simp add: moveWasteToTableau_def failure_def)
  next
    case False
    note w = this
    show ?thesis
    proof (cases "pileAt (tableau gs) i")
      case None
      with assms ti w show ?thesis by (simp add: moveWasteToTableau_def Let_def)
    next
      case (Some targetPile)
      then have rng: "nat i < length (tableau gs)"
        by (auto simp: pileAt_def split: if_splits)
      show ?thesis
      proof (cases "canMoveToTableau h (last (waste gs)) targetPile")
        case False
        with assms ti w Some show ?thesis
          by (simp add: moveWasteToTableau_def failure_def Let_def)
      next
        case True
        with assms ti w Some have "h' = h" and
          "gs' = gs\<lparr>waste := butlast (waste gs),
                    tableau := list_update (tableau gs) (nat i)
                                 (tableau gs ! nat i @ [last (waste gs)]),
                    moves := moves gs + 1, score := score gs + 5\<rparr>"
          by (simp_all add: moveWasteToTableau_def succeeded_def Let_def)
        with rng w show ?thesis by blast
      qed
    qed
  qed
qed

lemma makeMove_cases:
  assumes "makeMove h gs m = (h', gs', r)"
  obtains gs2 r2 where
    "executeMove h (gs\<lparr>gameHistory := gameHistory gs @ [snapshotOf gs]\<rparr>) m = (h', gs2, r2)"
    "gs' = gs2 \<or> gs' = gs2\<lparr>canUndo := True\<rparr>"
proof -
  let ?gs1 = "gs\<lparr>gameHistory := gameHistory gs @ [snapshotOf gs]\<rparr>"
  obtain h2 gs2 r2 where e: "executeMove h ?gs1 m = (h2, gs2, r2)"
    by (cases "executeMove h ?gs1 m") auto
  show ?thesis
  proof (cases r2)
    case (Inl x)
    with assms e have "h' = h2" "gs' = gs2" by (simp_all add: makeMove_def Let_def)
    with e that show ?thesis by blast
  next
    case (Inr res)
    with assms e have "h' = h2" "gs' = gs2 \<or> gs' = gs2\<lparr>canUndo := True\<rparr>"
      by (simp_all add: makeMove_def Let_def split: if_splits)
    with e that show ?thesis by blast
  qed
qed

text \<open>
  \<open>isValidMove\<close> runs the same three movers as \<open>executeMove\<close> and keeps their effect.
\<close>

lemma isValidMove_runs_executeMove:
  "heap_after (isValidMove h gs m) = heap_after (executeMove h gs m) \<and>
   state_after (isValidMove h gs m) = state_after (executeMove h gs m)"
  by (simp add: isValidMove_def executeMove_def successOf_def failure_def heap_after_def
      state_after_def split: MoveType.splits prod.splits)

lemma executeMove_failure_frame:
  assumes "\<not> succeeds (executeMove h gs m)"
  shows "heap_after (executeMove h gs m) = h \<and> state_after (executeMove h gs m) = gs"
  using assms
  by (auto simp: executeMove_def moveToFoundation_def moveToTableau_def moveWasteToTableau_def
      failure_def succeeded_def succeeds_def outcome_def heap_after_def state_after_def Let_def
      split: MoveType.splits option.splits prod.splits if_splits)

lemma moveWasteToTableau_history:
  "moveWasteToTableau h gs m = (h', gs', r) \<Longrightarrow> gameHistory gs' = gameHistory gs"
  by (auto simp: moveWasteToTableau_def failure_def succeeded_def Let_def
      split: option.splits if_splits)

lemma executeMove_history:
  assumes "executeMove h gs m = (h', gs', r)"
  shows "gameHistory gs' = gameHistory gs"
proof (cases "type_m m")
  case MFoundation
  with assms have mv: "moveToFoundation h gs m = (h', gs', r)" by (simp add: executeMove_def)
  from moveToFoundation_cases[OF mv] show ?thesis
  proof (elim disjE exE conjE)
    fix crd assume "revealHiddenCards h (foundationPlaced h gs crd) = (h', gs')"
    from revealHiddenCards_frame(5)[OF this] show ?thesis
      by (simp add: foundationPlaced_def Let_def removeCardFromSource_frame)
  qed auto
next
  case MTableau
  with assms have mv: "moveToTableau h gs m = (h', gs', r)" by (simp add: executeMove_def)
  from moveToTableau_cases[OF mv] show ?thesis
  proof (elim disjE exE conjE)
    fix crd ti assume "revealHiddenCards h (tableauPlaced h gs crd ti) = (h', gs')"
    from revealHiddenCards_frame(5)[OF this] show ?thesis
      by (simp add: tableauPlaced_def Let_def removeAll_from_source_frame)
  qed auto
next
  case MWasteToTableau
  with assms moveWasteToTableau_history show ?thesis by (simp add: executeMove_def)
qed (use assms in \<open>auto simp: executeMove_def failure_def\<close>)

lemma executeMove_newState:
  assumes "executeMove h gs m = (h', gs', Inr res)"
  shows "newState res = gs'"
proof (cases "type_m m")
  case MFoundation
  with assms have mv: "moveToFoundation h gs m = (h', gs', Inr res)" by (simp add: executeMove_def)
  from moveToFoundation_cases[OF mv] show ?thesis by auto
next
  case MTableau
  with assms have mv: "moveToTableau h gs m = (h', gs', Inr res)" by (simp add: executeMove_def)
  from moveToTableau_cases[OF mv] show ?thesis by auto
next
  case MWasteToTableau
  with assms show ?thesis
    by (auto simp: executeMove_def moveWasteToTableau_def failure_def succeeded_def Let_def
      split: option.splits if_splits)
qed (use assms in \<open>auto simp: executeMove_def failure_def\<close>)


section \<open>Boards on which every tableau top is face-up\<close>

text \<open>
  The invariant \<open>deal_inv\<close>: all tops face-up and the waste empty, now and in every
  history entry. With an empty waste a waste-to-tableau move cannot succeed, and the engine
  has no move that fills the waste.
\<close>

lemma moveWasteToTableau_inv:
  assumes "waste gs = []" "moveWasteToTableau h gs m = (h', gs', r)"
  shows "h' = h \<and> gs' = gs"
  using assms by (auto simp: moveWasteToTableau_def failure_def split: option.splits)

lemma moveToFoundation_inv:
  assumes "waste gs = []" "moveToFoundation h gs m = (h', gs', r)"
  shows "grows h h' \<and> (tops_faceUp h (tableau gs) \<longrightarrow> tops_faceUp h' (tableau gs')) \<and>
         waste gs' = [] \<and> gameHistory gs' = gameHistory gs"
  using moveToFoundation_cases[OF assms(2)]
proof (elim disjE exE conjE)
  fix crd
  assume rv: "revealHiddenCards h (foundationPlaced h gs crd) = (h', gs')"
  from revealHiddenCards_frame[OF rv] assms(1) show ?thesis
    by (simp add: foundationPlaced_def Let_def removeCardFromSource_frame)
qed (auto simp: assms(1) grows_refl)

lemma moveToTableau_inv:
  assumes "waste gs = []" "moveToTableau h gs m = (h', gs', r)"
  shows "grows h h' \<and> (tops_faceUp h (tableau gs) \<longrightarrow> tops_faceUp h' (tableau gs')) \<and>
         waste gs' = [] \<and> gameHistory gs' = gameHistory gs"
  using moveToTableau_cases[OF assms(2)]
proof (elim disjE exE conjE)
  fix crd ti
  assume rv: "revealHiddenCards h (tableauPlaced h gs crd ti) = (h', gs')"
  from revealHiddenCards_frame[OF rv] assms(1) show ?thesis
    by (simp add: tableauPlaced_def Let_def removeAll_from_source_frame)
qed (auto simp: assms(1) grows_refl)

lemma executeMove_inv:
  assumes "tops_faceUp h (tableau gs)" "waste gs = []" "executeMove h gs m = (h', gs', r)"
  shows "grows h h' \<and> tops_faceUp h' (tableau gs') \<and> waste gs' = [] \<and>
         gameHistory gs' = gameHistory gs"
proof (cases "type_m m")
  case MFoundation
  with assms moveToFoundation_inv[of gs h m h' gs' r] show ?thesis by (simp add: executeMove_def)
next
  case MTableau
  with assms moveToTableau_inv[of gs h m h' gs' r] show ?thesis by (simp add: executeMove_def)
next
  case MWasteToTableau
  with assms moveWasteToTableau_inv[of gs h m h' gs' r] show ?thesis
    by (simp add: executeMove_def grows_refl)
qed (use assms in \<open>auto simp: executeMove_def failure_def grows_refl\<close>)

lemma history_grows:
  "grows h h' \<Longrightarrow> list_all (\<lambda>s. tops_faceUp h (tableau s) \<and> waste s = []) hs
   \<Longrightarrow> list_all (\<lambda>s. tops_faceUp h' (tableau s) \<and> waste s = []) hs"
  by (auto simp: list_all_iff intro: tops_faceUp_grows)

lemma makeMove_inv:
  assumes "deal_inv h gs" "makeMove h gs m = (h', gs', r)"
  shows "deal_inv h' gs'"
proof -
  let ?gs1 = "gs\<lparr>gameHistory := gameHistory gs @ [snapshotOf gs]\<rparr>"
  from assms(2) obtain gs2 r2 where e: "executeMove h ?gs1 m = (h', gs2, r2)"
    and g: "gs' = gs2 \<or> gs' = gs2\<lparr>canUndo := True\<rparr>"
    by (rule makeMove_cases)
  from assms(1) have pre: "tops_faceUp h (tableau ?gs1)" "waste ?gs1 = []"
    by (simp_all add: deal_inv_def)
  from executeMove_inv[OF pre e]
  have post: "grows h h'" "tops_faceUp h' (tableau gs2)" "waste gs2 = []"
    "gameHistory gs2 = gameHistory gs @ [snapshotOf gs]" by simp_all
  from assms(1) have "list_all (\<lambda>s. tops_faceUp h (tableau s) \<and> waste s = [])
      (gameHistory gs @ [snapshotOf gs])"
    by (simp add: deal_inv_def snapshotOf_def)
  from history_grows[OF post(1) this] post
  have inv2: "deal_inv h' gs2" by (simp add: deal_inv_def)
  from g inv2 show ?thesis by (auto simp: deal_inv_def)
qed

lemma isValidMove_inv:
  assumes "deal_inv h gs" "isValidMove h gs m = (h', gs', r)"
  shows "deal_inv h' gs'"
proof -
  obtain r2 where e: "executeMove h gs m = (h', gs', r2)"
    using isValidMove_runs_executeMove[of h gs m] assms(2)
    by (cases "executeMove h gs m") (auto simp: heap_after_def state_after_def)
  from assms(1) have pre: "tops_faceUp h (tableau gs)" "waste gs = []"
    by (simp_all add: deal_inv_def)
  from executeMove_inv[OF pre e]
  have post: "grows h h'" "tops_faceUp h' (tableau gs')" "waste gs' = []"
    "gameHistory gs' = gameHistory gs" by simp_all
  from assms(1) have "list_all (\<lambda>s. tops_faceUp h (tableau s) \<and> waste s = []) (gameHistory gs)"
    by (simp add: deal_inv_def)
  from history_grows[OF post(1) this] post show ?thesis by (simp add: deal_inv_def)
qed

lemma undo_inv:
  assumes "deal_inv h gs" "undo h gs = (h', gs', Inr res)"
  shows "deal_inv h' (newState res)"
proof (cases "gameHistory gs = []")
  case True
  with assms show ?thesis by (auto simp: undo_def failure_def)
next
  case False
  then have l: "last (gameHistory gs) \<in> set (gameHistory gs)" by simp
  have b: "set (butlast (gameHistory gs)) \<subseteq> set (gameHistory gs)"
    by (auto dest: in_set_butlastD)
  from assms(2) False have h: "h' = h" and
    n: "tableau (newState res) = tableau (last (gameHistory gs))"
       "waste (newState res) = waste (last (gameHistory gs))"
       "gameHistory (newState res) = butlast (gameHistory gs)"
    by (auto simp: undo_def Let_def)
  from assms(1) l b show ?thesis
    unfolding deal_inv_def h n list_all_iff by blast
qed

lemma steps_inv: "steps w0 w \<Longrightarrow> deal_inv (fst w0) (snd w0) \<Longrightarrow> deal_inv (fst w) (snd w)"
proof (induction rule: steps.induct)
  case (start w)
  then show ?case by simp
next
  case (after_makeMove w h gs m h' gs' r)
  then show ?case using makeMove_inv by simp
next
  case (after_isValidMove w h gs m h' gs' b)
  then show ?case using isValidMove_inv by simp
next
  case (after_undo w h gs h' gs' res)
  then show ?case using undo_inv by simp
qed

section \<open>The deal of createInitialGameState\<close>

lemma deal_order_eq:
  "deal_order = [(0,0),(0,1),(0,2),(0,3),(0,4),(0,5),(0,6),(1,1),(1,2),(1,3),(1,4),(1,5),(1,6),
     (2,2),(2,3),(2,4),(2,5),(2,6),(3,3),(3,4),(3,5),(3,6),(4,4),(4,5),(4,6),(5,5),(5,6),(6,6)]"
  by code_simp

lemma stock_fold:
  "fold (dealCards_stock_step deck) [a..<b] (h, st) =
     ((\<lambda>r. if a \<le> r \<and> r < b then (deck ! r)\<lparr>faceUp := False\<rparr> else h r), st @ [a..<b])"
proof (induction b)
  case 0
  then show ?case by simp
next
  case (Suc b)
  show ?case
  proof (cases "a \<le> b")
    case True
    then show ?thesis
      using Suc by (auto simp: dealCards_stock_step_def fun_eq_iff)
  next
    case False
    then show ?thesis by (auto simp: fun_eq_iff)
  qed
qed

lemma dealCards_tableau:
  "fold (dealCards_tableau_step deck) deal_order (h0, replicate 7 [], 0) = (h1, tab, n)
   \<Longrightarrow> tab = dealt_columns \<and> n = 28 \<and>
       map (map (\<lambda>r. faceUp (h1 r))) dealt_columns =
         [[True], [False, True], [False, False, True], [False, False, False, True],
          [False, False, False, False, True], [False, False, False, False, False, True],
          [False, False, False, False, False, False, True]]"
  by (simp add: deal_order_eq dealCards_tableau_step_def dealt_columns_def numeral_eq_Suc) auto

lemma dealCards_eq:
  assumes "length deck = 52" "dealCards h0 deck = (h, tab, st)"
  shows "tab = dealt_columns" "st = [28..<52]"
    "map (map (\<lambda>r. faceUp (h r))) dealt_columns =
         [[True], [False, True], [False, False, True], [False, False, False, True],
          [False, False, False, False, True], [False, False, False, False, False, True],
          [False, False, False, False, False, False, True]]"
    "\<forall>r \<in> set st. \<not> faceUp (h r)"
proof -
  obtain h1 tab1 n where f: "fold (dealCards_tableau_step deck) deal_order (h0, replicate 7 [], 0) = (h1, tab1, n)"
    by (cases "fold (dealCards_tableau_step deck) deal_order (h0, replicate 7 [], 0)") auto
  from dealCards_tableau[OF f] have t: "tab1 = dealt_columns" "n = 28"
    and fu: "map (map (\<lambda>r. faceUp (h1 r))) dealt_columns =
         [[True], [False, True], [False, False, True], [False, False, False, True],
          [False, False, False, False, True], [False, False, False, False, False, True],
          [False, False, False, False, False, False, True]]" by simp_all
  from assms f t have hh: "h = (\<lambda>r. if 28 \<le> r \<and> r < 52 then (deck ! r)\<lparr>faceUp := False\<rparr> else h1 r)"
    and tt: "tab = dealt_columns" and ss: "st = [28..<52]"
    by (simp_all add: dealCards_def stock_fold)
  show "tab = dealt_columns" by fact
  show "st = [28..<52]" by fact
  show "\<forall>r \<in> set st. \<not> faceUp (h r)" by (simp add: hh ss)
  have "\<forall>p \<in> set dealt_columns. \<forall>r \<in> set p. r < 28" by (simp add: dealt_columns_def)
  then have "map (map (\<lambda>r. faceUp (h r))) dealt_columns = map (map (\<lambda>r. faceUp (h1 r))) dealt_columns"
    by (fastforce simp: hh)
  with fu show "map (map (\<lambda>r. faceUp (h r))) dealt_columns =
         [[True], [False, True], [False, False, True], [False, False, False, True],
          [False, False, False, False, True], [False, False, False, False, False, True],
          [False, False, False, False, False, False, True]]" by simp
qed

lemma tableau_fold_cells:
  "fold (dealCards_tableau_step deck) ps (h, tab, n) = (h', tab', n') \<Longrightarrow>
   n' = n + length ps \<and>
   (\<forall>r. h' r = (if n \<le> r \<and> r < n + length ps
                 then (deck ! r)\<lparr>faceUp := (snd (ps ! (r - n)) = fst (ps ! (r - n)))\<rparr>
                 else h r))"
proof (induction ps arbitrary: h tab n)
  case Nil
  then show ?case by auto
next
  case (Cons p ps)
  obtain col row where p: "p = (col, row)" by (cases p)
  let ?h1 = "h(n := (deck ! n)\<lparr>faceUp := (row = col)\<rparr>)"
  from Cons.prems p have
    "fold (dealCards_tableau_step deck) ps (?h1, list_update tab row (tab ! row @ [n]), Suc n) = (h', tab', n')"
    by (simp add: dealCards_tableau_step_def)
  from Cons.IH[OF this] have a: "n' = Suc n + length ps"
    and b: "\<And>r. h' r = (if Suc n \<le> r \<and> r < Suc n + length ps
                 then (deck ! r)\<lparr>faceUp := (snd (ps ! (r - Suc n)) = fst (ps ! (r - Suc n)))\<rparr>
                 else ?h1 r)"
    by simp_all
  have "h' r = (if n \<le> r \<and> r < n + length (p # ps)
                 then (deck ! r)\<lparr>faceUp := (snd ((p # ps) ! (r - n)) = fst ((p # ps) ! (r - n)))\<rparr>
                 else h r)" for r
  proof (cases "r = n")
    case True
    then show ?thesis using b[of r] p by simp
  next
    case False
    show ?thesis
    proof (cases "n < r")
      case True
      then obtain k where k: "r - n = Suc k" "r - Suc n = k"
        by (metis Suc_diff_Suc diff_Suc_eq_diff_pred diff_Suc_1)
      with True b[of r] show ?thesis by auto
    next
      case False
      with \<open>r \<noteq> n\<close> b[of r] show ?thesis by auto
    qed
  qed
  with a show ?case by simp
qed

lemma deal_order_diag:
  assumes "r < 28"
  shows "(snd (deal_order ! r) = fst (deal_order ! r)) = (r \<in> set dealt_tops)"
proof -
  have "list_all (\<lambda>r. (snd (deal_order ! r) = fst (deal_order ! r)) = (r \<in> set dealt_tops)) [0..<28]"
    by code_simp
  with assms show ?thesis by (simp add: list_all_iff)
qed

text \<open>
  The store after \<open>dealCards\<close>: the copy of \<open>deck[k]\<close> at address \<open>k\<close>, face-up exactly
  when it is the last card dealt to its column.
\<close>

lemma dealCards_heap:
  assumes "length deck = 52" "dealCards h0 deck = (h, tab, st)"
  shows "h = dealtHeap h0 deck"
proof -
  obtain h1 tab1 n where f: "fold (dealCards_tableau_step deck) deal_order (h0, replicate 7 [], 0) = (h1, tab1, n)"
    by (cases "fold (dealCards_tableau_step deck) deal_order (h0, replicate 7 [], 0)") auto
  have l: "length deal_order = 28" by (simp add: deal_order_eq)
  from tableau_fold_cells[OF f] l have n: "n = 28" and
    c: "\<And>r. h1 r = (if r < 28
                 then (deck ! r)\<lparr>faceUp := (snd (deal_order ! r) = fst (deal_order ! r))\<rparr>
                 else h0 r)"
    by simp_all
  from assms f n have h: "h = (\<lambda>r. if 28 \<le> r \<and> r < 52 then (deck ! r)\<lparr>faceUp := False\<rparr> else h1 r)"
    by (simp add: dealCards_def stock_fold)
  have "h r = dealtHeap h0 deck r" for r
  proof (cases "r < 28")
    case True
    with c[of r] deal_order_diag[OF True] show ?thesis by (simp add: h dealtHeap_def)
  next
    case False
    then have "r \<notin> set dealt_tops" by (auto simp: dealt_tops_def)
    with False c[of r] show ?thesis by (simp add: h dealtHeap_def)
  qed
  then show ?thesis by (rule ext)
qed

lemma dealCards_ids:
  assumes "length deck = 52" "dealCards h0 deck = (h, tab, st)" "r < 52"
  shows "id_c (h r) = id_c (deck ! r)"
  using dealCards_heap[OF assms(1,2)] assms(3) by (simp add: dealtHeap_def)

text \<open>
  \<open>createInitialGameState\<close> deals as the rules ask, whatever the shuffle: columns of one
  to seven cards with only the last dealt card face-up, the other twenty-four cards face-down
  in the stock, every card object in exactly one place.
\<close>

lemma createInitialGameState_layout:
  assumes "createInitialGameState h0 rnd = (h, gs)"
  shows "map length (tableau gs) = [1, 2, 3, 4, 5, 6, 7] \<and>
         list_all (only_top_faceUp h) (tableau gs) \<and>
         length (stock gs) = 24 \<and> list_all (\<lambda>r. \<not> faceUp (h r)) (stock gs) \<and>
         waste gs = [] \<and> gameHistory gs = [] \<and>
         distinct (allCards gs) \<and> length (allCards gs) = 52"
proof -
  let ?deck = "shuffleDeck rnd createDeck"
  have len: "length ?deck = 52" by (simp add: length_shuffleDeck length_createDeck)
  obtain tab st where d: "dealCards h0 ?deck = (h, tab, st)" and g: "gs = freshState st tab"
    using assms by (auto simp: createInitialGameState_def Let_def split: prod.splits)
  note e = dealCards_eq[OF len d]
  have a: "map length (tableau gs) = [1, 2, 3, 4, 5, 6, 7]"
    by (simp add: g e freshState_def dealt_columns_def)
  have b: "list_all (only_top_faceUp h) (tableau gs)"
    using e(3) by (simp add: g e(1) freshState_def dealt_columns_def only_top_faceUp_def)
  have c: "length (stock gs) = 24 \<and> list_all (\<lambda>r. \<not> faceUp (h r)) (stock gs)"
    using e(4) by (simp add: g e(2) freshState_def list_all_iff)
  have "allCards gs = [28..<52] @ concat dealt_columns"
    by (simp add: g e allCards_def freshState_def Object_values_def)
  moreover have "distinct ([28..<52] @ concat dealt_columns)"
    by (simp add: dealt_columns_def)
  moreover have "length ([28..<52] @ concat dealt_columns) = 52"
    by (simp add: dealt_columns_def)
  ultimately have dd: "distinct (allCards gs) \<and> length (allCards gs) = 52" by simp
  from a b c dd show ?thesis by (simp add: g freshState_def)
qed

lemma only_top_imp_tops: "list_all (only_top_faceUp h) tab \<Longrightarrow> tops_faceUp h tab"
  by (auto simp: tops_faceUp_def only_top_faceUp_def list_all_iff)

lemma createInitialGameState_inv:
  assumes "createInitialGameState h0 rnd = (h, gs)"
  shows "deal_inv h gs"
  using createInitialGameState_layout[OF assms] only_top_imp_tops[of h "tableau gs"]
  by (simp add: deal_inv_def)

text \<open>
  The deal of the examples, written out; evaluation uses this equation.
\<close>

lemma moduleDeal_eq [code]:
  "moduleDeal = (dealtHeap blankStore createDeck, freshState [28..<52] dealt_columns)"
proof -
  obtain h tab st where d: "dealCards blankStore createDeck = (h, tab, st)"
    by (cases "dealCards blankStore createDeck") auto
  from dealCards_eq(1,2)[OF length_createDeck d] dealCards_heap[OF length_createDeck d] d
  show ?thesis
    by (simp add: moduleDeal_def createInitialGameState_def shuffleDeck_identity)
qed

section \<open>The deal of GameEngine.initializeGame\<close>

text \<open>
  \<open>dealTableau\<close> takes the card for row \<open>i\<close> of column \<open>j\<close> from deck position
  \<open>i * 7 + j\<close>: positions 0-6, 8-13, 16-20, 24-27, 32-34, 40, 41 and 48.
\<close>

lemma dealTableau_fold_split:
  "fold (dealTableau_step d) ps (h, tab) = (fold (deal_write d) ps h, fold (deal_push d) ps tab)"
  by (induction ps arbitrary: h tab)
     (auto simp: dealTableau_step_def deal_write_def deal_push_def Let_def)

lemma dealTableau_columns:
  assumes "dealTableau h d = (h', tab)"
  shows "tab = engine_columns d"
proof -
  from assms have "tab = fold (deal_push d) deal_order (replicate 7 [])"
    by (simp add: dealTableau_def dealTableau_fold_split)
  then show ?thesis
    by (simp add: deal_order_eq deal_push_def engine_columns_def numeral_eq_Suc)
qed

lemma deal_write_other:
  "r \<notin> deal_target d ` set ps \<Longrightarrow> fold (deal_write d) ps h r = h r"
  by (induction ps arbitrary: h) (auto simp: deal_write_def deal_target_def)

lemma deal_write_faceUp:
  "distinct (map (deal_target d) ps) \<Longrightarrow> p \<in> set ps \<Longrightarrow>
   faceUp (fold (deal_write d) ps h (deal_target d p)) = (fst p = snd p)"
proof (induction ps arbitrary: h)
  case Nil
  then show ?case by simp
next
  case (Cons q ps)
  show ?case
  proof (cases "q = p")
    case True
    with Cons.prems have "deal_target d p \<notin> deal_target d ` set ps" by auto
    from deal_write_other[OF this, of "deal_write d p h"] True
    have "fold (deal_write d) (q # ps) h (deal_target d p) = deal_write d p h (deal_target d p)"
      by simp
    moreover have "faceUp (deal_write d p h (deal_target d p)) = (fst p = snd p)"
      by (simp add: deal_write_def deal_target_def case_prod_unfold)
    ultimately show ?thesis by simp
  next
    case False
    with Cons show ?thesis by simp
  qed
qed

lemma deal_write_id: "id_c (fold (deal_write d) ps h r) = id_c (h r)"
  by (induction ps arbitrary: h) (auto simp: deal_write_def)

lemma deal_targets_distinct:
  assumes "length d = 52" "distinct d"
  shows "distinct (map (deal_target d) deal_order)"
proof -
  have "map (deal_target d) deal_order = map ((!) d) (map (\<lambda>(i, j). i * 7 + j) deal_order)"
    by (simp add: deal_target_def case_prod_unfold comp_def)
  moreover have "distinct (map (\<lambda>(i, j). i * 7 + j) deal_order)"
    by (simp add: deal_order_eq)
  moreover have "set (map (\<lambda>(i, j). i * 7 + j) deal_order) \<subseteq> {..<length d}"
    by (simp add: deal_order_eq assms(1))
  moreover have "inj_on ((!) d) {..<length d}"
    using assms(2) by (auto simp: inj_on_def nth_eq_iff_index_eq)
  ultimately show ?thesis
    by (metis distinct_map inj_on_subset)
qed

lemma dealTableau_tops:
  assumes "length d = 52" "distinct d" "dealTableau h d = (h', tab)"
  shows "map (map (\<lambda>r. faceUp (h' r))) (engine_columns d) =
         [[True], [False, True], [False, False, True], [False, False, False, True],
          [False, False, False, False, True], [False, False, False, False, False, True],
          [False, False, False, False, False, False, True]]"
proof -
  from assms(3) have h': "h' = fold (deal_write d) deal_order h"
    by (simp add: dealTableau_def dealTableau_fold_split)
  have "\<forall>p \<in> set deal_order. faceUp (h' (deal_target d p)) = (fst p = snd p)"
  proof
    fix p assume "p \<in> set deal_order"
    from deal_write_faceUp[OF deal_targets_distinct[OF assms(1,2)] this]
    show "faceUp (h' (deal_target d p)) = (fst p = snd p)" unfolding h' .
  qed
  then have "list_all (\<lambda>p. faceUp (h' (deal_target d p)) = (fst p = snd p)) deal_order"
    by (simp add: list_all_iff)
  then show ?thesis
    by (simp add: deal_order_eq deal_target_def engine_columns_def)
qed

lemma initializeGame_eq:
  assumes "rnd_ok rnd" "initializeGame h0 rnd = (h, gs)"
  obtains d where "length d = 52" "distinct d" "tableau gs = engine_columns d"
    "stock gs = drop 28 d" "waste gs = []" "gameHistory gs = []"
    "map (map (\<lambda>r. faceUp (h r))) (engine_columns d) =
         [[True], [False, True], [False, False, True], [False, False, False, True],
          [False, False, False, False, True], [False, False, False, False, False, True],
          [False, False, False, False, False, False, True]]"
proof -
  let ?d = "shuffleDeck rnd [0..<52]"
  have len: "length ?d = 52" by (simp add: length_shuffleDeck)
  have dist: "distinct ?d" using assms(1) by (simp add: distinct_shuffleDeck)
  obtain h1 where a: "allocDeck h0 createDeck_engine = (h1, [0..<52])"
    by (simp add: allocDeck_def length_createDeck_engine)
  obtain tab where dt: "dealTableau h1 ?d = (h, tab)" and g: "gs = freshState (drop 28 ?d) tab"
    using assms(2) a by (auto simp: initializeGame_def Let_def split: prod.splits)
  from dealTableau_columns[OF dt] have t: "tab = engine_columns ?d" .
  from dealTableau_tops[OF len dist dt] len dist t g that[of ?d] show ?thesis
    by (simp add: freshState_def)
qed

lemma tops_faceUp_engine_columns:
  assumes "map (map (\<lambda>r. faceUp (h r))) (engine_columns d) =
         [[True], [False, True], [False, False, True], [False, False, False, True],
          [False, False, False, False, True], [False, False, False, False, False, True],
          [False, False, False, False, False, False, True]]"
  shows "list_all (only_top_faceUp h) (engine_columns d)"
  using assms by (simp add: engine_columns_def only_top_faceUp_def)

lemma initializeGame_inv:
  assumes "rnd_ok rnd" "initializeGame h0 rnd = (h, gs)"
  shows "deal_inv h gs"
proof -
  from assms obtain d where d: "tableau gs = engine_columns d" "waste gs = []" "gameHistory gs = []"
    "map (map (\<lambda>r. faceUp (h r))) (engine_columns d) =
         [[True], [False, True], [False, False, True], [False, False, False, True],
          [False, False, False, False, True], [False, False, False, False, False, True],
          [False, False, False, False, False, False, True]]"
    by (rule initializeGame_eq)
  from only_top_imp_tops[OF tops_faceUp_engine_columns[OF d(4)]] d(1,2,3) show ?thesis
    by (simp add: deal_inv_def)
qed

lemma fresh_deal_inv: "fresh_deal w \<Longrightarrow> deal_inv (fst w) (snd w)"
proof (induction rule: fresh_deal.induct)
  case (by_createInitialGameState rnd h0)
  then show ?case
    using createInitialGameState_inv[of h0 rnd] by (cases "createInitialGameState h0 rnd") simp
next
  case (by_initializeGame rnd h0)
  then show ?case
    using initializeGame_inv[of rnd h0] by (cases "initializeGame h0 rnd") simp
qed

text \<open>
  For every shuffle the columns have one to seven cards and the stock twenty-four, but the
  fifth card of the stock is the card object on top of the fifth column, face-up.
\<close>

lemma initializeGame_shares_cards:
  assumes "rnd_ok rnd" "initializeGame h0 rnd = (h, gs)"
  shows "map length (tableau gs) = [1, 2, 3, 4, 5, 6, 7] \<and> length (stock gs) = 24 \<and>
         stock gs ! 4 = last (tableau gs ! 4) \<and> faceUp (h (stock gs ! 4)) \<and>
         \<not> distinct (allCards gs)"
proof -
  from assms obtain d where d: "length d = 52" "tableau gs = engine_columns d"
    "stock gs = drop 28 d"
    "map (map (\<lambda>r. faceUp (h r))) (engine_columns d) =
         [[True], [False, True], [False, False, True], [False, False, False, True],
          [False, False, False, False, True], [False, False, False, False, False, True],
          [False, False, False, False, False, False, True]]"
    by (rule initializeGame_eq)
  from d(1,3) have s: "stock gs ! 4 = d ! 32" "length (stock gs) = 24" by simp_all
  from d(2) have t: "last (tableau gs ! 4) = d ! 32" "map length (tableau gs) = [1, 2, 3, 4, 5, 6, 7]"
    by (simp_all add: engine_columns_def)
  from d(4) have f: "faceUp (h (d ! 32))" by (simp add: engine_columns_def)
  from s have "d ! 32 \<in> set (stock gs)" by (metis nth_mem numeral_less_iff semiring_norm(76,78,81))
  moreover from d(2) have "d ! 32 \<in> set (concat (tableau gs))" by (simp add: engine_columns_def)
  ultimately have "\<not> distinct (allCards gs)" by (auto simp: allCards_def)
  with s t f show ?thesis by simp
qed

text \<open>
  The deal with the shuffle that leaves the deck in order, in full.
\<close>

lemma allocDeck_cells: "r < length cs \<Longrightarrow> fst (allocDeck h0 cs) r = cs ! r"
  by (simp add: allocDeck_def)

lemma engineDeal_piles:
  "tableau (snd engineDeal) =
     [[0], [1, 8], [2, 9, 16], [3, 10, 17, 24], [4, 11, 18, 25, 32],
      [5, 12, 19, 26, 33, 40], [6, 13, 20, 27, 34, 41, 48]]"
  "stock (snd engineDeal) = [28..<52]"
  "waste (snd engineDeal) = []"
  "foundations (snd engineDeal) = (\<lambda>_. [])"
proof -
  obtain h1 where a: "allocDeck blankStore createDeck_engine = (h1, [0..<52])"
    by (simp add: allocDeck_def length_createDeck_engine)
  obtain h2 tab where dt: "dealTableau h1 [0..<52] = (h2, tab)"
    by (cases "dealTableau h1 [0..<52]") auto
  from a dt have e: "engineDeal = (h2, freshState (drop 28 [0..<52]) tab)"
    by (simp add: engineDeal_def initializeGame_def shuffleDeck_identity)
  from dealTableau_columns[OF dt] have t: "tab = engine_columns [0..<52]" .
  show "tableau (snd engineDeal) =
     [[0], [1, 8], [2, 9, 16], [3, 10, 17, 24], [4, 11, 18, 25, 32],
      [5, 12, 19, 26, 33, 40], [6, 13, 20, 27, 34, 41, 48]]"
    by (simp add: e t freshState_def engine_columns_def)
  show "stock (snd engineDeal) = [28..<52]" by (simp add: e freshState_def)
  show "waste (snd engineDeal) = []" by (simp add: e freshState_def)
  show "foundations (snd engineDeal) = (\<lambda>_. [])" by (simp add: e freshState_def)
qed

lemma engineDeal_faceUp:
  "faceUp (fst engineDeal 32)" "faceUp (fst engineDeal 40)" "faceUp (fst engineDeal 48)"
proof -
  obtain h gs where e: "engineDeal = (h, gs)" by (cases engineDeal) auto
  then have i: "initializeGame blankStore identityShuffle = (h, gs)" by (simp add: engineDeal_def)
  obtain d where d: "length d = 52" "tableau gs = engine_columns d"
     "map (map (\<lambda>r. faceUp (h r))) (engine_columns d) =
         [[True], [False, True], [False, False, True], [False, False, False, True],
          [False, False, False, False, True], [False, False, False, False, False, True],
          [False, False, False, False, False, False, True]]"
    using initializeGame_eq[OF rnd_ok_identityShuffle i] by metis
  have "tableau gs = [[0], [1, 8], [2, 9, 16], [3, 10, 17, 24], [4, 11, 18, 25, 32],
      [5, 12, 19, 26, 33, 40], [6, 13, 20, 27, 34, 41, 48]]"
    using engineDeal_piles(1) by (simp add: e)
  with d(2) have "engine_columns d =
     [[0], [1, 8], [2, 9, 16], [3, 10, 17, 24], [4, 11, 18, 25, 32],
      [5, 12, 19, 26, 33, 40], [6, 13, 20, 27, 34, 41, 48]]" by simp
  with d(3) show "faceUp (fst engineDeal 32)" "faceUp (fst engineDeal 40)" "faceUp (fst engineDeal 48)"
    by (simp_all add: e)
qed

lemma engineDeal_allCards:
  "allCards (snd engineDeal) = [28..<52] @ [0, 1, 8, 2, 9, 16, 3, 10, 17, 24, 4, 11, 18, 25, 32,
      5, 12, 19, 26, 33, 40, 6, 13, 20, 27, 34, 41, 48]"
  by (simp add: allCards_def engineDeal_piles Object_values_def)

lemma engineDeal_ids:
  assumes "r < 52"
  shows "id_c (fst engineDeal r) = id_c (createDeck_engine ! r)"
proof -
  obtain h1 where a: "allocDeck blankStore createDeck_engine = (h1, [0..<52])"
    by (simp add: allocDeck_def length_createDeck_engine)
  then have h1: "h1 r = createDeck_engine ! r"
    using allocDeck_cells[of r createDeck_engine blankStore] assms
    by (simp add: length_createDeck_engine)
  from a have "fst engineDeal = fold (deal_write [0..<52]) deal_order h1"
    by (simp add: engineDeal_def initializeGame_def shuffleDeck_identity dealTableau_def
        dealTableau_fold_split split: prod.splits)
  with h1 show ?thesis by (simp add: deal_write_id)
qed

lemma engineDeal_missing_id:
  "id_c (createDeck_engine ! 7) \<notin> (\<lambda>r. id_c (fst engineDeal r)) ` set (allCards (snd engineDeal))"
proof
  assume "id_c (createDeck_engine ! 7) \<in> (\<lambda>r. id_c (fst engineDeal r)) ` set (allCards (snd engineDeal))"
  then obtain r where r: "r \<in> set (allCards (snd engineDeal))"
    "id_c (createDeck_engine ! 7) = id_c (fst engineDeal r)" by auto
  from r(1) have "r < 52" "r \<noteq> 7" by (auto simp: engineDeal_allCards)
  with r(2) engineDeal_ids[of r] have "map id_c createDeck_engine ! 7 = map id_c createDeck_engine ! r"
    by (simp add: length_createDeck_engine)
  moreover have "7 < length (map id_c createDeck_engine)" "r < length (map id_c createDeck_engine)"
    using \<open>r < 52\<close> by (simp_all add: length_createDeck_engine)
  ultimately have "7 = r" using ids_createDeck_engine nth_eq_iff_index_eq by blast
  with \<open>r \<noteq> 7\<close> show False by simp
qed

section \<open>Conservation after createInitialGameState\<close>

text \<open>
  Removing a card by id removes that card, as long as the ids of the cards on the board are
  pairwise different.
\<close>

lemma findIndex_None: "findIndex P xs = None \<longleftrightarrow> (\<forall>x \<in> set xs. \<not> P x)"
  by (induction xs) auto

lemma findIndex_Some: "findIndex P xs = Some i \<Longrightarrow> i < length xs \<and> P (xs ! i)"
  by (induction xs arbitrary: i) (auto split: if_splits)

lemma mset_splice1: "i < length xs \<Longrightarrow> mset (splice1 i xs) = mset xs - {#xs ! i#}"
proof -
  assume "i < length xs"
  then have "xs = take i xs @ xs ! i # drop (Suc i) xs" by (rule id_take_nth_drop)
  then have "mset xs = mset (splice1 i xs) + {#xs ! i#}"
    unfolding splice1_def by (metis mset.simps(2) mset_append union_mset_add_mset_right add.right_neutral)
  then show ?thesis by simp
qed

lemma findIndex_unique:
  assumes "inj_on f A" "set xs \<subseteq> A" "c \<in> A" "findIndex (\<lambda>x. f x = f c) xs = Some i"
  shows "i < length xs \<and> xs ! i = c"
proof -
  from findIndex_Some[OF assms(4)] have i: "i < length xs" "f (xs ! i) = f c" by simp_all
  with assms(2) have "xs ! i \<in> A" by (auto dest: nth_mem)
  with assms(1,3) i show ?thesis by (auto dest: inj_onD)
qed

lemma remove_found:
  assumes "inj_on f A" "set xs \<subseteq> A" "c \<in> A" "findIndex (\<lambda>x. f x = f c) xs = Some i"
  shows "c \<in> set xs \<and> mset (splice1 i xs) = mset xs - {#c#}"
  using findIndex_unique[OF assms] mset_splice1[of i xs] by (auto dest: nth_mem)

lemma not_found: "findIndex (\<lambda>x. f x = f c) xs = None \<Longrightarrow> c \<notin> set xs"
  by (auto simp: findIndex_None)

lemma removeFromPiles_None:
  "removeFromPiles (\<lambda>x. f x = f c) t = None \<Longrightarrow> c \<notin> set (concat t)"
  by (induction t) (auto split: option.splits dest: not_found)

lemma removeFromPiles_Some:
  assumes "inj_on f A" "c \<in> A"
  shows "set (concat t) \<subseteq> A \<Longrightarrow> removeFromPiles (\<lambda>x. f x = f c) t = Some t' \<Longrightarrow>
         c \<in> set (concat t) \<and> mset (concat t') = mset (concat t) - {#c#} \<and> length t' = length t"
proof (induction t arbitrary: t')
  case Nil
  then show ?case by simp
next
  case (Cons p t)
  show ?case
  proof (cases "findIndex (\<lambda>x. f x = f c) p")
    case (Some i)
    from Cons.prems(1) have "set p \<subseteq> A" by simp
    from remove_found[OF assms(1) this assms(2) Some] Cons.prems(2) Some
    show ?thesis by auto
  next
    case None
    with Cons.prems(2) obtain t'' where t'': "removeFromPiles (\<lambda>x. f x = f c) t = Some t''"
      "t' = p # t''" by (auto split: option.splits)
    from Cons.prems(1) have "set (concat t) \<subseteq> A" by simp
    from Cons.IH[OF this t''(1)] t''(2) show ?thesis by simp
  qed
qed

lemma removeFromFoundations_mset:
  assumes inj: "inj_on f A" and cA: "c \<in> A"
    and sub: "set (concat (Object_values fo)) \<subseteq> A"
    and mem: "c \<in> set (concat (Object_values fo))"
  shows "mset (concat (Object_values
            (removeFromFoundations (\<lambda>x. f x = f c) [Spades, Hearts, Diamonds, Clubs] fo))) =
         mset (concat (Object_values fo)) - {#c#}"
proof -
  from sub have s: "set (fo Spades) \<subseteq> A" "set (fo Hearts) \<subseteq> A" "set (fo Diamonds) \<subseteq> A"
    "set (fo Clubs) \<subseteq> A" by (simp_all add: Object_values_def)
  note rf = remove_found[OF inj _ cA]
  show ?thesis
  proof (cases "findIndex (\<lambda>x. f x = f c) (fo Spades)")
    case (Some i)
    from rf[OF s(1) Some] Some show ?thesis by (simp add: Object_values_def)
  next
    case n1: None
    show ?thesis
    proof (cases "findIndex (\<lambda>x. f x = f c) (fo Hearts)")
      case (Some i)
      from rf[OF s(2) Some] Some n1 show ?thesis by (simp add: Object_values_def)
    next
      case n2: None
      show ?thesis
      proof (cases "findIndex (\<lambda>x. f x = f c) (fo Diamonds)")
        case (Some i)
        from rf[OF s(3) Some] Some n1 n2 show ?thesis by (simp add: Object_values_def)
      next
        case n3: None
        show ?thesis
        proof (cases "findIndex (\<lambda>x. f x = f c) (fo Clubs)")
          case (Some i)
          from rf[OF s(4) Some] Some n1 n2 n3 show ?thesis by (simp add: Object_values_def)
        next
          case n4: None
          from not_found[OF n1] not_found[OF n2] not_found[OF n3] not_found[OF n4] mem
          show ?thesis by (simp add: Object_values_def)
        qed
      qed
    qed
  qed
qed

lemma removeCardFromSource_mset:
  assumes inj: "inj_on (\<lambda>r. id_c (h r)) A" and sub: "set (allCards gs) \<subseteq> A"
    and mem: "c \<in> set (allCards gs)"
  shows "mset (allCards (removeCardFromSource h gs c)) = mset (allCards gs) - {#c#} \<and>
         length (tableau (removeCardFromSource h gs c)) = length (tableau gs)"
proof -
  let ?P = "\<lambda>x. id_c (h x) = id_c (h c)"
  from sub mem have cA: "c \<in> A" by auto
  from sub have s: "set (stock gs) \<subseteq> A" "set (waste gs) \<subseteq> A" "set (concat (tableau gs)) \<subseteq> A"
    "set (concat (Object_values (foundations gs))) \<subseteq> A" by (simp_all add: allCards_def)
  note rf = remove_found[OF inj _ cA]
  show ?thesis
  proof (cases "findIndex ?P (stock gs)")
    case (Some i)
    from rf[OF s(1) Some] Some show ?thesis
      by (simp add: removeCardFromSource_def allCards_def)
  next
    case n1: None
    show ?thesis
    proof (cases "findIndex ?P (waste gs)")
      case (Some i)
      from rf[OF s(2) Some] Some n1 show ?thesis
        by (simp add: removeCardFromSource_def allCards_def)
    next
      case n2: None
      show ?thesis
      proof (cases "removeFromPiles ?P (tableau gs)")
        case (Some t')
        from removeFromPiles_Some[OF inj cA s(3) Some] Some n1 n2 show ?thesis
          by (simp add: removeCardFromSource_def allCards_def)
      next
        case n3: None
        from not_found[OF n1] not_found[OF n2] removeFromPiles_None[OF n3] mem
        have "c \<in> set (concat (Object_values (foundations gs)))" by (simp add: allCards_def)
        from removeFromFoundations_mset[OF inj cA s(4) this] this n1 n2 n3 show ?thesis
          by (simp add: removeCardFromSource_def allCards_def Let_def
              del: removeFromFoundations.simps)
      qed
    qed
  qed
qed

lemma distinct_remove_mset:
  assumes "distinct xs" "mset ys = mset xs - {#c#}"
  shows "distinct ys" "set ys = set xs - {c}"
proof -
  from assms(2) have e: "mset ys = mset (remove1 c xs)" by simp
  from mset_eq_imp_distinct_iff[OF e] assms(1) show "distinct ys" by simp
  from mset_eq_setD[OF e] assms(1) show "set ys = set xs - {c}" by simp
qed

lemma removeAll_from_source_mset:
  assumes inj: "inj_on (\<lambda>r. id_c (h r)) A"
  shows "set (allCards gs) \<subseteq> A \<Longrightarrow> distinct (allCards gs) \<Longrightarrow> distinct cs \<Longrightarrow>
         set cs \<subseteq> set (allCards gs) \<Longrightarrow>
         mset (allCards (removeAll_from_source h cs gs)) = mset (allCards gs) - mset cs \<and>
         length (tableau (removeAll_from_source h cs gs)) = length (tableau gs)"
proof (induction cs arbitrary: gs)
  case Nil
  then show ?case by simp
next
  case (Cons c cs)
  let ?g = "removeCardFromSource h gs c"
  from Cons.prems have c: "c \<in> set (allCards gs)" by simp
  from removeCardFromSource_mset[OF inj Cons.prems(1) c]
  have m: "mset (allCards ?g) = mset (allCards gs) - {#c#}"
    and l: "length (tableau ?g) = length (tableau gs)" by simp_all
  from distinct_remove_mset[OF Cons.prems(2) m]
  have d: "distinct (allCards ?g)" and "set (allCards ?g) = set (allCards gs) - {c}" by simp_all
  with Cons.prems have s: "set (allCards ?g) \<subseteq> A" "set cs \<subseteq> set (allCards ?g)" by auto
  have "mset (allCards gs) - {#c#} - mset cs = mset (allCards gs) - mset (c # cs)"
    by (simp add: multiset_eq_iff)
  with Cons.IH[OF s(1) d _ s(2)] Cons.prems(3) m l show ?case by simp
qed

lemma getCardsToMove_loop_sub:
  "set (getCardsToMove_loop P t c) \<subseteq> set (concat t) \<union> {c}"
  by (induction t) (auto split: option.splits dest: in_set_dropD)

lemma getCardsToMove_loop_distinct:
  "distinct (concat t) \<Longrightarrow> distinct (getCardsToMove_loop P t c)"
  by (induction t) (auto split: option.splits)

lemma mset_concat_push:
  "i < length t \<Longrightarrow> mset (concat (list_update t i (t ! i @ cs))) = mset (concat t) + mset cs"
  by (induction t arbitrary: i) (auto split: nat.splits)

lemma mset_foundation_push:
  "mset (concat (Object_values (fo(s := fo s @ [c])))) = mset (concat (Object_values fo)) + {#c#}"
  by (cases s) (simp_all add: Object_values_def)

lemma findCard_mem: "findCard h gs cid = Some c \<Longrightarrow> c \<in> set (allCards gs)"
  by (auto simp: findCard_def find_Some_iff)

lemma revealHiddenCards_keeps:
  assumes "revealHiddenCards h gs = (h', gs')"
  shows "allCards gs' = allCards gs" "id_c (h' r) = id_c (h r)"
proof -
  obtain sc where r: "reveal_loop (tableau gs) h (score gs) = (h', sc)" and g: "gs' = gs\<lparr>score := sc\<rparr>"
    using assms by (auto simp: revealHiddenCards_def split: prod.splits)
  from g show "allCards gs' = allCards gs" by (simp add: allCards_def)
  from reveal_loop_cards[OF r, of r] show "id_c (h' r) = id_c (h r)" by (simp split: if_splits)
qed

lemma distinct_sub_mset:
  assumes "distinct cs" "set cs \<subseteq> set xs"
  shows "mset cs \<subseteq># mset xs"
proof (rule mset_subset_eqI)
  fix a
  show "count (mset cs) a \<le> count (mset xs) a"
  proof (cases "a \<in> set cs")
    case True
    with assms(1) have "count (mset cs) a = 1" by (simp add: distinct_count_atmost_1)
    moreover from True assms(2) have "a \<in># mset xs" by auto
    then have "1 \<le> count (mset xs) a" by (simp add: Suc_le_eq)
    ultimately show ?thesis by simp
  next
    case False
    then have "count (mset cs) a = 0" by (metis count_eq_zero_iff set_mset_mset)
    then show ?thesis by linarith
  qed
qed

lemma deck_cards_facts:
  assumes "mset (allCards gs) = mset [0..<52]"
  shows "set (allCards gs) \<subseteq> {..<52}" "distinct (allCards gs)"
proof -
  from mset_eq_setD[OF assms] show "set (allCards gs) \<subseteq> {..<52}" by auto
  from mset_eq_imp_distinct_iff[OF assms] show "distinct (allCards gs)" by simp
qed

lemma foundationPlaced_mset:
  assumes cards: "mset (allCards gs) = mset [0..<52]"
    and inj: "inj_on (\<lambda>r. id_c (h r)) {..<52}"
    and c: "crd \<in> set (allCards gs)"
  shows "mset (allCards (foundationPlaced h gs crd)) = mset (allCards gs)"
proof -
  let ?g = "removeCardFromSource h gs crd"
  note f = deck_cards_facts[OF cards]
  from removeCardFromSource_mset[OF inj f(1) c]
  have m: "mset (allCards ?g) = mset (allCards gs) - {#crd#}" by simp
  have "mset (allCards (foundationPlaced h gs crd)) = mset (allCards ?g) + {#crd#}"
    by (simp add: foundationPlaced_def Let_def allCards_def mset_foundation_push)
  with m c show ?thesis by simp
qed

lemma tableauPlaced_mset:
  assumes cards: "mset (allCards gs) = mset [0..<52]"
    and inj: "inj_on (\<lambda>r. id_c (h r)) {..<52}"
    and c: "crd \<in> set (allCards gs)" and ti: "ti < length (tableau gs)"
  shows "mset (allCards (tableauPlaced h gs crd ti)) = mset (allCards gs)"
proof -
  let ?cs = "getCardsToMove h gs crd"
  let ?g = "removeAll_from_source h ?cs gs"
  note f = deck_cards_facts[OF cards]
  from f(2) have dt: "distinct (concat (tableau gs))" by (simp add: allCards_def)
  then have dcs: "distinct ?cs" by (simp add: getCardsToMove_def getCardsToMove_loop_distinct)
  have "set ?cs \<subseteq> set (concat (tableau gs)) \<union> {crd}"
    unfolding getCardsToMove_def by (rule getCardsToMove_loop_sub)
  with c have sub: "set ?cs \<subseteq> set (allCards gs)" by (auto simp: allCards_def)
  from removeAll_from_source_mset[OF inj f(1) f(2) dcs sub]
  have m: "mset (allCards ?g) = mset (allCards gs) - mset ?cs"
    and l: "length (tableau ?g) = length (tableau gs)" by simp_all
  from l ti have "ti < length (tableau ?g)" by simp
  then have "mset (allCards (tableauPlaced h gs crd ti)) = mset (allCards ?g) + mset ?cs"
    by (simp add: tableauPlaced_def Let_def allCards_def mset_concat_push)
  with m distinct_sub_mset[OF dcs sub] show ?thesis
    by (simp add: subset_mset.diff_add)
qed

lemma moveWasteToTableau_mset:
  assumes "moveWasteToTableau h gs m = (h', gs', r)"
  shows "h' = h \<and> mset (allCards gs') = mset (allCards gs)"
proof -
  from moveWasteToTableau_cases[OF assms] have h: "h' = h" and
    d: "gs' = gs \<or>
           (\<exists>ti. ti < length (tableau gs) \<and> waste gs \<noteq> [] \<and>
              gs' = gs\<lparr>waste := butlast (waste gs),
                        tableau := list_update (tableau gs) ti (tableau gs ! ti @ [last (waste gs)]),
                        moves := moves gs + 1, score := score gs + 5\<rparr>)" by simp_all
  from d have "mset (allCards gs') = mset (allCards gs)"
  proof (elim disjE exE conjE)
    fix ti
    assume ti: "ti < length (tableau gs)" and w: "waste gs \<noteq> []"
      and g: "gs' = gs\<lparr>waste := butlast (waste gs),
                        tableau := list_update (tableau gs) ti (tableau gs ! ti @ [last (waste gs)]),
                        moves := moves gs + 1, score := score gs + 5\<rparr>"
    from w have "butlast (waste gs) @ [last (waste gs)] = waste gs" by simp
    then have "mset (waste gs) = mset (butlast (waste gs)) + {#last (waste gs)#}"
      by (metis mset.simps(1) mset.simps(2) mset_append add_mset_add_single)
    with ti g show ?thesis by (simp add: allCards_def mset_concat_push)
  qed simp
  with h show ?thesis by simp
qed

lemma executeMove_conserved:
  assumes cards: "mset (allCards gs) = mset [0..<52]"
    and inj: "inj_on (\<lambda>r. id_c (h r)) {..<52}"
    and e: "executeMove h gs m = (h', gs', r)"
  shows "mset (allCards gs') = mset [0..<52] \<and> (\<forall>x. id_c (h' x) = id_c (h x))"
proof (cases "type_m m")
  case MFoundation
  with e have mv: "moveToFoundation h gs m = (h', gs', r)" by (simp add: executeMove_def)
  from moveToFoundation_cases[OF mv] show ?thesis
  proof (elim disjE exE conjE)
    fix crd
    assume fc: "findCard h gs (cardId m) = Some crd"
      and rv: "revealHiddenCards h (foundationPlaced h gs crd) = (h', gs')"
    from foundationPlaced_mset[OF cards inj findCard_mem[OF fc]] revealHiddenCards_keeps[OF rv] cards
    show ?thesis by simp
  qed (auto simp: cards)
next
  case MTableau
  with e have mv: "moveToTableau h gs m = (h', gs', r)" by (simp add: executeMove_def)
  from moveToTableau_cases[OF mv] show ?thesis
  proof (elim disjE exE conjE)
    fix crd ti
    assume fc: "findCard h gs (cardId m) = Some crd" and ti: "ti < length (tableau gs)"
      and rv: "revealHiddenCards h (tableauPlaced h gs crd ti) = (h', gs')"
    from tableauPlaced_mset[OF cards inj findCard_mem[OF fc] ti] revealHiddenCards_keeps[OF rv] cards
    show ?thesis by simp
  qed (auto simp: cards)
next
  case MWasteToTableau
  with e have "moveWasteToTableau h gs m = (h', gs', r)" by (simp add: executeMove_def)
  from moveWasteToTableau_mset[OF this] cards show ?thesis by simp
qed (use e cards in \<open>auto simp: executeMove_def failure_def\<close>)

lemma snapshotCards_snapshotOf: "snapshotCards (snapshotOf gs) = allCards gs"
  by (simp add: snapshotCards_def snapshotOf_def allCards_def)

lemma conserved_same_ids:
  assumes "\<forall>x. id_c (h' x) = id_c (h x)"
  shows "inj_on (\<lambda>r. id_c (h' r)) A = inj_on (\<lambda>r. id_c (h r)) A"
    "(\<lambda>r. id_c (h' r)) ` A = (\<lambda>r. id_c (h r)) ` A"
  using assms by (simp_all add: inj_on_def image_def)

lemma makeMove_conserved:
  assumes "conserved h gs" "makeMove h gs m = (h', gs', r)"
  shows "conserved h' gs'"
proof -
  let ?g0 = "gs\<lparr>gameHistory := gameHistory gs @ [snapshotOf gs]\<rparr>"
  from assms(2) obtain gs2 r2 where e: "executeMove h ?g0 m = (h', gs2, r2)"
    and g: "gs' = gs2 \<or> gs' = gs2\<lparr>canUndo := True\<rparr>"
    by (rule makeMove_cases)
  from assms(1) have cards: "mset (allCards ?g0) = mset [0..<52]"
    and inj: "inj_on (\<lambda>r. id_c (h r)) {..<52}"
    by (simp_all add: conserved_def allCards_def)
  from executeMove_conserved[OF cards inj e]
  have c2: "mset (allCards gs2) = mset [0..<52]" and ids: "\<forall>x. id_c (h' x) = id_c (h x)"
    by simp_all
  from executeMove_history[OF e] have hist: "gameHistory gs2 = gameHistory gs @ [snapshotOf gs]"
    by simp
  from assms(1) have "conserved h' gs2"
    unfolding conserved_def conserved_same_ids[OF ids] hist
    using c2 by (auto simp: snapshotCards_snapshotOf)
  with g show ?thesis by (auto simp: conserved_def allCards_def)
qed

lemma isValidMove_conserved:
  assumes "conserved h gs" "isValidMove h gs m = (h', gs', r)"
  shows "conserved h' gs'"
proof -
  obtain r2 where e: "executeMove h gs m = (h', gs', r2)"
    using isValidMove_runs_executeMove[of h gs m] assms(2)
    by (cases "executeMove h gs m") (auto simp: heap_after_def state_after_def)
  from assms(1) have cards: "mset (allCards gs) = mset [0..<52]"
    and inj: "inj_on (\<lambda>r. id_c (h r)) {..<52}"
    by (simp_all add: conserved_def)
  from executeMove_conserved[OF cards inj e]
  have c2: "mset (allCards gs') = mset [0..<52]" and ids: "\<forall>x. id_c (h' x) = id_c (h x)"
    by simp_all
  from assms(1) show ?thesis
    unfolding conserved_def conserved_same_ids[OF ids] executeMove_history[OF e]
    using c2 by simp
qed

lemma undo_conserved:
  assumes "conserved h gs" "undo h gs = (h', gs', Inr res)"
  shows "conserved h' (newState res)"
proof (cases "gameHistory gs = []")
  case True
  with assms show ?thesis by (auto simp: undo_def failure_def)
next
  case False
  then have l: "last (gameHistory gs) \<in> set (gameHistory gs)" by simp
  have b: "set (butlast (gameHistory gs)) \<subseteq> set (gameHistory gs)"
    by (auto dest: in_set_butlastD)
  from assms(2) False have h: "h' = h" and
    n: "allCards (newState res) = snapshotCards (last (gameHistory gs))"
       "gameHistory (newState res) = butlast (gameHistory gs)"
    by (auto simp: undo_def Let_def allCards_def snapshotCards_def)
  from assms(1) l b show ?thesis
    unfolding conserved_def h n by blast
qed

lemma steps_conserved:
  "steps w0 w \<Longrightarrow> conserved (fst w0) (snd w0) \<Longrightarrow> conserved (fst w) (snd w)"
proof (induction rule: steps.induct)
  case (start w)
  then show ?case by simp
next
  case (after_makeMove w h gs m h' gs' r)
  then show ?case using makeMove_conserved by simp
next
  case (after_isValidMove w h gs m h' gs' b)
  then show ?case using isValidMove_conserved by simp
next
  case (after_undo w h gs h' gs' res)
  then show ?case using undo_conserved by simp
qed

lemma dealt_cards_mset: "mset ([28..<52] @ concat dealt_columns) = mset [0..<52]"
proof -
  have "sort (concat dealt_columns) = [0..<28]" by code_simp
  then have "mset (concat dealt_columns) = mset [0..<28]" by (metis mset_sort)
  moreover have "[0..<52] = [0..<28] @ [28..<52]"
    using upt_add_eq_append[of 0 28 24] by simp
  ultimately show ?thesis by simp
qed

lemma createInitialGameState_conserved:
  assumes "rnd_ok rnd" "createInitialGameState h0 rnd = (h, gs)"
  shows "conserved h gs"
proof -
  let ?deck = "shuffleDeck rnd createDeck"
  have len: "length ?deck = 52" by (simp add: length_shuffleDeck length_createDeck)
  obtain tab st where d: "dealCards h0 ?deck = (h, tab, st)" and g: "gs = freshState st tab"
    using assms(2) by (auto simp: createInitialGameState_def Let_def split: prod.splits)
  note e = dealCards_eq[OF len d]
  have "allCards gs = [28..<52] @ concat dealt_columns"
    by (simp add: g e(1,2) allCards_def freshState_def Object_values_def)
  then have cards: "mset (allCards gs) = mset [0..<52]"
    by (simp only: dealt_cards_mset)
  have m: "mset (map id_c ?deck) = mset (map id_c createDeck)"
    using mset_shuffleDeck[OF assms(1), of createDeck] by (metis mset_map)
  with ids_createDeck have dd: "distinct (map id_c ?deck)"
    by (metis mset_eq_imp_distinct_iff)
  have ids: "\<And>r. r < 52 \<Longrightarrow> id_c (h r) = map id_c ?deck ! r"
    using dealCards_ids[OF len d] len by simp
  have inj: "inj_on (\<lambda>r. id_c (h r)) {..<52}"
  proof (rule inj_onI)
    fix x y assume "x \<in> {..<52::nat}" "y \<in> {..<52::nat}" "id_c (h x) = id_c (h y)"
    with ids have "map id_c ?deck ! x = map id_c ?deck ! y" "x < length (map id_c ?deck)"
      "y < length (map id_c ?deck)" using len by simp_all
    with dd show "x = y" using nth_eq_iff_index_eq by blast
  qed
  have "(\<lambda>r. id_c (h r)) ` {..<52} = (\<lambda>r. map id_c ?deck ! r) ` {..<length (map id_c ?deck)}"
    using ids len by (auto simp: image_def)
  also have "\<dots> = set (map id_c ?deck)"
    by (metis nth_image take_all order_refl lessThan_atLeast0 atLeast0LessThan)
  also have "\<dots> = set (map id_c createDeck)" using m by (rule mset_eq_setD)
  finally have img: "(\<lambda>r. id_c (h r)) ` {..<52} = set (map id_c createDeck)" .
  from cards inj img show ?thesis by (simp add: conserved_def g freshState_def)
qed

text \<open>
  Every board that follows a deal by \<open>createInitialGameState\<close> through calls of
  \<open>makeMove\<close>, \<open>isValidMove\<close> and \<open>undo\<close> holds fifty-two cards, no id twice, and
  the ids are those of the deck.
\<close>

lemma createInitialGameState_conservation:
  assumes "rnd_ok rnd" "steps (createInitialGameState h0 rnd) (h, gs)"
  shows "length (allCards gs) = 52 \<and> distinct (allCards gs) \<and>
         distinct (map (\<lambda>r. id_c (h r)) (allCards gs)) \<and>
         set (map (\<lambda>r. id_c (h r)) (allCards gs)) = set (map id_c createDeck)"
proof -
  obtain hi gi where i: "createInitialGameState h0 rnd = (hi, gi)"
    by (cases "createInitialGameState h0 rnd")
  from createInitialGameState_conserved[OF assms(1) i] steps_conserved[OF assms(2)] i
  have c: "conserved h gs" by simp
  then have m: "mset (allCards gs) = mset [0..<52]"
    and inj: "inj_on (\<lambda>r. id_c (h r)) {..<52}"
    and img: "(\<lambda>r. id_c (h r)) ` {..<52} = set (map id_c createDeck)"
    by (simp_all add: conserved_def)
  from mset_eq_length[OF m] have l: "length (allCards gs) = 52" by (simp only: length_upt)
  from mset_eq_setD[OF m] have s: "set (allCards gs) = {..<52}"
    by (simp only: set_upt atLeast0LessThan)
  from mset_eq_imp_distinct_iff[OF m] have d: "distinct (allCards gs)"
    by (simp only: distinct_upt)
  from d inj s have "distinct (map (\<lambda>r. id_c (h r)) (allCards gs))" by (simp add: distinct_map)
  moreover from s img have "set (map (\<lambda>r. id_c (h r)) (allCards gs)) = set (map id_c createDeck)"
    by simp
  ultimately show ?thesis using l d by simp
qed

section \<open>Undo round trip\<close>

text \<open>
  After a successful move, undo puts back the arrays of card references of all piles,
  \<open>gameStats\<close> and the history. Nothing puts back \<open>faceUp\<close>, \<open>moves\<close> and
  \<open>score\<close>.
\<close>

lemma undo_restores_piles:
  assumes "makeMove h gs m = (h1, gs1, Inr res)" "success res"
  shows "\<exists>gs2 res2. undo h1 (newState res) = (h1, gs2, Inr res2) \<and> success res2 \<and>
           stock (newState res2) = stock gs \<and> waste (newState res2) = waste gs \<and>
           foundations (newState res2) = foundations gs \<and>
           tableau (newState res2) = tableau gs \<and>
           gameStats (newState res2) = gameStats gs \<and>
           gameHistory (newState res2) = gameHistory gs"
proof -
  let ?g0 = "gs\<lparr>gameHistory := gameHistory gs @ [snapshotOf gs]\<rparr>"
  obtain h2 g2 r2 where e: "executeMove h ?g0 m = (h2, g2, r2)"
    by (cases "executeMove h ?g0 m") auto
  from assms e obtain res0 where r2: "r2 = Inr res0" "success res0" and
    eq: "h1 = h2" "gs1 = g2\<lparr>canUndo := True\<rparr>" "res = res0\<lparr>newState := g2\<lparr>canUndo := True\<rparr>\<rparr>"
    by (auto simp: makeMove_def Let_def split: sum.splits if_splits)
  from executeMove_history[OF e] have hist: "gameHistory g2 = gameHistory gs @ [snapshotOf gs]"
    by simp
  from eq hist show ?thesis
    by (simp add: undo_def Let_def snapshotOf_def)
qed

text \<open>
  C1. Undo after a successful move should give back a board structurally equal to the one
  before the move. On the fresh deal of the examples the ace of hearts goes to its
  foundation, which reveals the nine of spades under it (score 10 + 5). The undo that follows
  puts the references of all piles back, but the nine of spades stays face-up (the history
  entry shares the card objects with the board), and \<open>moves\<close> and \<open>score\<close> keep their
  values from after the move.
\<close>

theorem undo_after_move_example:
  "succeeds afterAce \<and> succeeds afterAceUndone \<and>
   tableau (snd moduleDeal) ! 2 = [2, 8, 13] \<and>
   tableau (result_state afterAce) ! 2 = [2, 8] \<and>
   tableau (result_state afterAceUndone) = tableau (snd moduleDeal) \<and>
   stock (result_state afterAceUndone) = stock (snd moduleDeal) \<and>
   foundations (result_state afterAceUndone) Hearts = foundations (snd moduleDeal) Hearts \<and>
   faceUp (fst moduleDeal 8) = False \<and> faceUp (heap_after afterAceUndone 8) = True \<and>
   moves (snd moduleDeal) = 0 \<and> moves (result_state afterAceUndone) = 1 \<and>
   score (snd moduleDeal) = 0 \<and> score (result_state afterAceUndone) = 15 \<and>
   \<not> sameBoard (heap_after afterAceUndone) (result_state afterAceUndone)
        (fst moduleDeal) (snd moduleDeal)"
  by code_simp

section \<open>Rejected moves\<close>

text \<open>
  Whatever makes a move fail (an error result or a thrown \<open>TypeError\<close>), \<open>makeMove\<close>
  leaves the store alone and changes the board in exactly one place: the history has one
  more entry.
\<close>

lemma makeMove_failure_frame:
  assumes "\<not> succeeds (makeMove h gs m)"
  shows "heap_after (makeMove h gs m) = h \<and>
         state_after (makeMove h gs m) = gs\<lparr>gameHistory := gameHistory gs @ [snapshotOf gs]\<rparr>"
proof -
  let ?gs1 = "gs\<lparr>gameHistory := gameHistory gs @ [snapshotOf gs]\<rparr>"
  obtain h' gs' r where e: "executeMove h ?gs1 m = (h', gs', r)"
    by (cases "executeMove h ?gs1 m") auto
  with assms have nsucc: "\<not> succeeds (executeMove h ?gs1 m)"
    by (auto simp: makeMove_def succeeds_def outcome_def Let_def split: sum.splits if_splits)
  from executeMove_failure_frame[OF this] e have "h' = h" "gs' = ?gs1"
    by (simp_all add: heap_after_def state_after_def)
  with e nsucc show ?thesis
    by (auto simp: makeMove_def heap_after_def state_after_def succeeds_def outcome_def Let_def
        split: sum.splits)
qed

text \<open>
  C2. A move that fails validation should leave the board unchanged, history included, and
  be answered with an error result. On the fresh deal the eight of spades is refused by the
  empty foundation, yet the history grows from empty to one entry while \<open>canUndo\<close> stays
  false; a tableau move to column 7 (there are columns 0 to 6) ends in a thrown
  \<open>TypeError\<close> instead of an error result, again with one more history entry.
\<close>

theorem rejected_move_grows_history_example:
  "\<not> succeeds (makeMove (fst moduleDeal) (snd moduleDeal) eightOfSpades) \<and>
   result_error (makeMove (fst moduleDeal) (snd moduleDeal) eightOfSpades)
     = Some ''Only Ace can be placed on empty foundation'' \<and>
   length (gameHistory (snd moduleDeal)) = 0 \<and>
   length (gameHistory (state_after (makeMove (fst moduleDeal) (snd moduleDeal) eightOfSpades)))
     = 1 \<and>
   canUndo (state_after (makeMove (fst moduleDeal) (snd moduleDeal) eightOfSpades)) = False \<and>
   threw (makeMove (fst moduleDeal) (snd moduleDeal) aceOfHeartsToColumnSeven) \<and>
   length (gameHistory (state_after
     (makeMove (fst moduleDeal) (snd moduleDeal) aceOfHeartsToColumnSeven))) = 1"
  by code_simp

section \<open>The validator\<close>

text \<open>
  C3. Validation should leave the board unchanged. On the fresh deal, asking whether the
  ace of hearts may go to its foundation answers \<open>true\<close> and performs the move: the ace
  leaves the third column, lands on the foundation, the nine of spades is flipped, and
  \<open>moves\<close> and \<open>score\<close> are 1 and 15.
\<close>

theorem isValidMove_mutates_example:
  "outcome (isValidMove (fst moduleDeal) (snd moduleDeal) aceOfHearts) = Inr True \<and>
   tableau (snd moduleDeal) ! 2 = [2, 8, 13] \<and>
   tableau (state_after (isValidMove (fst moduleDeal) (snd moduleDeal) aceOfHearts)) ! 2
     = [2, 8] \<and>
   foundations (state_after (isValidMove (fst moduleDeal) (snd moduleDeal) aceOfHearts)) Hearts
     = [13] \<and>
   faceUp (fst moduleDeal 8) = False \<and>
   faceUp (heap_after (isValidMove (fst moduleDeal) (snd moduleDeal) aceOfHearts) 8) = True \<and>
   moves (state_after (isValidMove (fst moduleDeal) (snd moduleDeal) aceOfHearts)) = 1 \<and>
   score (state_after (isValidMove (fst moduleDeal) (snd moduleDeal) aceOfHearts)) = 15 \<and>
   \<not> sameBoard (heap_after (isValidMove (fst moduleDeal) (snd moduleDeal) aceOfHearts))
        (state_after (isValidMove (fst moduleDeal) (snd moduleDeal) aceOfHearts))
        (fst moduleDeal) (snd moduleDeal)"
  by code_simp

section \<open>The enumerator\<close>

text \<open>
  The validator looks the card of a move up by its id, so an enumerated move is judged on
  the first card of the board that carries the id of the enumerated card.
\<close>

lemma findCard_of_member:
  assumes "r \<in> set (allCards gs)"
  obtains c where "findCard h gs (id_c (h r)) = Some c" "c \<in> set (allCards gs)"
    "id_c (h c) = id_c (h r)"
proof (cases "findCard h gs (id_c (h r))")
  case None
  with assms show ?thesis by (auto simp: findCard_def find_None_iff)
next
  case (Some c)
  then have "c \<in> set (allCards gs)" "id_c (h c) = id_c (h r)"
    by (auto simp: findCard_def find_Some_iff)
  with Some that show ?thesis by blast
qed

lemma top_in_allCards: "p \<in> set (tableau gs) \<Longrightarrow> p \<noteq> [] \<Longrightarrow> last p \<in> set (allCards gs)"
  using last_in_set by (fastforce simp: allCards_def)

lemma waste_top_in_allCards: "waste gs \<noteq> [] \<Longrightarrow> last (waste gs) \<in> set (allCards gs)"
  by (auto simp: allCards_def)

lemma canMoveToTableau_same_face:
  "suit (h a) = suit (h b) \<Longrightarrow> rank (h a) = rank (h b) \<Longrightarrow> value_c (h a) = value_c (h b)
   \<Longrightarrow> canMoveToTableau h a pile = canMoveToTableau h b pile"
  by (simp add: canMoveToTableau_def isRed_def)

lemma pileAt_index: "i < length t \<Longrightarrow> pileAt t (int i) = Some (t ! i)"
  by (simp add: pileAt_def)

lemma outcome_succeeded_reveal:
  "outcome (successOf (case revealHiddenCards h gs of (h', gs') \<Rightarrow> succeeded h' gs')) = Inr True"
  by (simp add: outcome_def successOf_def succeeded_def split: prod.splits)

lemma foundationMoves_valid:
  assumes ok: "ids_consistent h gs" and m: "m \<in> set (foundationMoves h gs)"
  shows "outcome (isValidMove h gs m) = Inr True"
proof -
  from m obtain i p where ip: "i < length (tableau gs)" "p = tableau gs ! i" "p \<noteq> []"
    and up: "faceUp (h (last p))"
    and cond: "(foundations gs (suit (h (last p))) = [] \<and> rank (h (last p)) = RA) \<or>
       (foundations gs (suit (h (last p))) \<noteq> [] \<and>
        value_c (h (last p)) = value_c (h (last (foundations gs (suit (h (last p)))))) + 1)"
    and mdef: "m = newMove MFoundation (id_c (h (last p))) (Some LTableau) (Some (int i)) None"
    by (auto simp: foundationMoves_def in_set_enumerate_eq Let_def split: if_splits)
  from ip have "last p \<in> set (allCards gs)" by (auto intro: top_in_allCards)
  then obtain c where c: "findCard h gs (id_c (h (last p))) = Some c" "c \<in> set (allCards gs)"
    "id_c (h c) = id_c (h (last p))" by (rule findCard_of_member)
  with ok \<open>last p \<in> set (allCards gs)\<close>
  have same: "suit (h c) = suit (h (last p))" "rank (h c) = rank (h (last p))"
    "value_c (h c) = value_c (h (last p))"
    unfolding ids_consistent_def by blast+
  show ?thesis
    using c(1) cond same
    by (auto simp: isValidMove_def mdef newMove_def moveToFoundation_def Let_def
        outcome_succeeded_reveal)
qed

lemma tableauMoves_valid:
  assumes ok: "ids_consistent h gs" and m: "m \<in> set (tableauMoves h gs)"
  shows "outcome (isValidMove h gs m) = Inr True"
proof -
  from m obtain i p j where ip: "i < length (tableau gs)" "p = tableau gs ! i" "p \<noteq> []"
    and j: "j < length (tableau gs)"
    and can: "canMoveToTableau h (last p) (tableau gs ! j)"
    and mdef: "m = newMove MTableau (id_c (h (last p))) (Some LTableau) (Some (int i)) (Some (int j))"
    by (auto simp: tableauMoves_def in_set_enumerate_eq Let_def split: if_splits)
  from ip have "last p \<in> set (allCards gs)" by (auto intro: top_in_allCards)
  then obtain c where c: "findCard h gs (id_c (h (last p))) = Some c" "c \<in> set (allCards gs)"
    "id_c (h c) = id_c (h (last p))" by (rule findCard_of_member)
  with ok \<open>last p \<in> set (allCards gs)\<close>
  have same: "suit (h c) = suit (h (last p))" "rank (h c) = rank (h (last p))"
    "value_c (h c) = value_c (h (last p))"
    unfolding ids_consistent_def by blast+
  then have "canMoveToTableau h c (tableau gs ! j)"
    using can canMoveToTableau_same_face by blast
  then show ?thesis
    using c(1) j
    by (simp add: isValidMove_def mdef newMove_def moveToTableau_def Let_def pileAt_index
        outcome_succeeded_reveal)
qed

lemma wasteMoves_valid:
  assumes m: "m \<in> set (wasteMoves h gs)"
  shows "outcome (isValidMove h gs m) = Inr True"
proof -
  from m obtain j where w: "waste gs \<noteq> []" and j: "j < length (tableau gs)"
    and can: "canMoveToTableau h (last (waste gs)) (tableau gs ! j)"
    and mdef: "m = newMove MWasteToTableau (id_c (h (last (waste gs)))) (Some LWaste) None (Some (int j))"
    by (auto simp: wasteMoves_def in_set_enumerate_eq Let_def split: if_splits)
  then show ?thesis
    by (simp add: isValidMove_def newMove_def moveWasteToTableau_def Let_def pileAt_index
        outcome_def successOf_def succeeded_def)
qed

text \<open>
  Boards without duplicate ids are well-formed in the sense of \<open>ids_consistent\<close>.
\<close>

lemma distinct_ids_consistent:
  assumes "distinct (map (\<lambda>r. id_c (h r)) (allCards gs))"
  shows "ids_consistent h gs"
proof -
  from assms have "inj_on (\<lambda>r. id_c (h r)) (set (allCards gs))" by (simp add: distinct_map)
  then show ?thesis unfolding ids_consistent_def by (auto dest: inj_onD)
qed

text \<open>
  C4. Every move listed by \<open>getAllPossibleMoves\<close> for a well-formed board is accepted by
  \<open>isValidMove\<close> on that board.
\<close>

theorem enumerated_moves_are_valid:
  assumes "ids_consistent h gs" and "m \<in> set (getAllPossibleMoves h gs)"
  shows "outcome (isValidMove h gs m) = Inr True"
  using assms foundationMoves_valid tableauMoves_valid wasteMoves_valid
  by (auto simp: getAllPossibleMoves_def)

theorem enumerated_moves_are_valid_witness:
  "ids_consistent (fst moduleDeal) (snd moduleDeal) \<and>
   aceOfHearts \<in> set (getAllPossibleMoves (fst moduleDeal) (snd moduleDeal)) \<and>
   outcome (isValidMove (fst moduleDeal) (snd moduleDeal) aceOfHearts) = Inr True"
proof -
  have "steps moduleDeal (fst moduleDeal, snd moduleDeal)" by (simp add: steps.start)
  then have "distinct (map (\<lambda>r. id_c (fst moduleDeal r)) (allCards (snd moduleDeal)))"
    unfolding moduleDeal_def
    using createInitialGameState_conservation[OF rnd_ok_identityShuffle] by blast
  then have a: "ids_consistent (fst moduleDeal) (snd moduleDeal)"
    by (rule distinct_ids_consistent)
  have b: "aceOfHearts \<in> set (getAllPossibleMoves (fst moduleDeal) (snd moduleDeal))"
    by code_simp
  from enumerated_moves_are_valid [OF a b] a b show ?thesis by simp
qed

section \<open>Conservation\<close>

text \<open>
  C5. Every reachable board should hold each of the fifty-two cards exactly once. The board
  dealt by \<open>GameEngine.initializeGame\<close> (shuffle leaving the deck in order) has fifty-two
  places, but six card objects (deck positions 32, 33, 34, 40, 41, 48) lie both in the
  tableau and in the stock, so ids repeat, and six (7, 14, 15, 21, 22, 23) are in no pile:
  no card on the board carries the id of the eight of spades, the card at position 7.
\<close>

theorem engine_deal_loses_and_doubles_cards:
  "tableau (snd engineDeal) =
     [[0], [1, 8], [2, 9, 16], [3, 10, 17, 24], [4, 11, 18, 25, 32],
      [5, 12, 19, 26, 33, 40], [6, 13, 20, 27, 34, 41, 48]] \<and>
   stock (snd engineDeal) = [28..<52] \<and>
   length (allCards (snd engineDeal)) = 52 \<and>
   \<not> distinct (allCards (snd engineDeal)) \<and>
   \<not> distinct (map (\<lambda>r. id_c (fst engineDeal r)) (allCards (snd engineDeal))) \<and>
   list_all (\<lambda>r. r \<in> set (stock (snd engineDeal)) \<and> r \<in> set (concat (tableau (snd engineDeal))))
     [32, 33, 34, 40, 41, 48] \<and>
   list_all (\<lambda>r. r \<notin> set (allCards (snd engineDeal))) [7, 14, 15, 21, 22, 23] \<and>
   id_c (createDeck_engine ! 7) \<notin>
     (\<lambda>r. id_c (fst engineDeal r)) ` set (allCards (snd engineDeal))"
proof -
  have a: "\<not> distinct (allCards (snd engineDeal))"
    by (simp add: engineDeal_allCards)
  then have b: "\<not> distinct (map (\<lambda>r. id_c (fst engineDeal r)) (allCards (snd engineDeal)))"
    by (simp add: distinct_map)
  have c: "list_all (\<lambda>r. r \<notin> set (allCards (snd engineDeal))) [7, 14, 15, 21, 22, 23]"
    "length (allCards (snd engineDeal)) = 52"
    by (simp_all add: engineDeal_allCards)
  have d: "list_all (\<lambda>r. r \<in> set (stock (snd engineDeal)) \<and>
      r \<in> set (concat (tableau (snd engineDeal)))) [32, 33, 34, 40, 41, 48]"
    by (simp add: engineDeal_piles)
  from a b c d engineDeal_piles(1,2) engineDeal_missing_id show ?thesis by blast
qed

section \<open>Foundation moves\<close>

text \<open>
  C6. Only a face-up top card of a tableau column or the top card of the waste should be
  able to reach a foundation. On the fresh deal the ace of diamonds lies face-down in the
  seventh column under the two of diamonds, and the ace of clubs lies face-down in the
  middle of the stock; the foundation move succeeds for either.
\<close>

theorem buried_cards_reach_foundation_example:
  "tableau (snd moduleDeal) ! 6 = [6, 12, 17, 21, 24, 26, 27] \<and>
   faceUp (fst moduleDeal 26) = False \<and>
   id_c (fst moduleDeal 26) = cardId aceOfDiamonds \<and>
   succeeds (makeMove (fst moduleDeal) (snd moduleDeal) aceOfDiamonds) \<and>
   tableau (result_state (makeMove (fst moduleDeal) (snd moduleDeal) aceOfDiamonds)) ! 6
     = [6, 12, 17, 21, 24, 27] \<and>
   foundations (result_state (makeMove (fst moduleDeal) (snd moduleDeal) aceOfDiamonds)) Diamonds
     = [26] \<and>
   stock (snd moduleDeal) ! 11 = 39 \<and>
   faceUp (fst moduleDeal 39) = False \<and>
   id_c (fst moduleDeal 39) = cardId aceOfClubs \<and>
   succeeds (makeMove (fst moduleDeal) (snd moduleDeal) aceOfClubs) \<and>
   39 \<notin> set (stock (result_state (makeMove (fst moduleDeal) (snd moduleDeal) aceOfClubs))) \<and>
   foundations (result_state (makeMove (fst moduleDeal) (snd moduleDeal) aceOfClubs)) Clubs
     = [39]"
  by code_simp

section \<open>Stock moves\<close>

text \<open>
  \<open>executeMove\<close> has a case for \<open>foundation\<close>, \<open>tableau\<close> and
  \<open>waste-to-tableau\<close>. A move of type \<open>stock\<close> or \<open>waste\<close>, both members of
  \<open>Move.type\<close>, falls to the default branch on every board: nothing is drawn and nothing
  is recycled.
\<close>

lemma stock_and_waste_moves_refused:
  assumes "type_m m = MStock \<or> type_m m = MWaste"
  shows "executeMove h gs m = failure h gs ''Invalid move type''"
    and "isValidMove h gs m = (h, gs, Inr False)"
  using assms by (auto simp: isValidMove_def executeMove_def failure_def)

text \<open>
  C7. With a non-empty stock a stock move should be legal and draw one or three cards onto
  the waste, face-up. On the fresh deal the stock holds twenty-four cards; the move the
  board component sends when the stock is clicked is not valid, \<open>makeMove\<close> refuses it
  with \<open>Invalid move type\<close>, the waste stays empty and the stock is as before.
\<close>

theorem stock_move_rejected_example:
  "length (stock (snd moduleDeal)) = 24 \<and>
   outcome (isValidMove (fst moduleDeal) (snd moduleDeal) stockClick) = Inr False \<and>
   \<not> succeeds (makeMove (fst moduleDeal) (snd moduleDeal) stockClick) \<and>
   result_error (makeMove (fst moduleDeal) (snd moduleDeal) stockClick) = Some ''Invalid move type'' \<and>
   waste (state_after (makeMove (fst moduleDeal) (snd moduleDeal) stockClick)) = [] \<and>
   stock (state_after (makeMove (fst moduleDeal) (snd moduleDeal) stockClick))
     = stock (snd moduleDeal)"
  by code_simp

section \<open>Deal layout\<close>

text \<open>
  C8. A fresh deal should put the twenty-four cards that are not in the tableau into the
  stock, all face-down. \<open>GameEngine.initializeGame\<close> with the shuffle that leaves the deck
  in order builds columns of one to seven cards and a stock of twenty-four, but
  \<open>dealTableau\<close> reads \<open>deck[i * 7 + j]\<close>, so the fifth column ends in the card object at
  deck position 32, which is also the fifth card of the stock \<open>shuffledDeck.slice(28)\<close>,
  and that card is face-up.
\<close>

theorem engine_deal_stock_not_face_down:
  "map length (tableau (snd engineDeal)) = [1, 2, 3, 4, 5, 6, 7] \<and>
   length (stock (snd engineDeal)) = 24 \<and>
   stock (snd engineDeal) ! 4 = 32 \<and> 
   last (tableau (snd engineDeal) ! 4) = 32 \<and>
   faceUp (fst engineDeal 32)"
  using engineDeal_faceUp by (simp add: engineDeal_piles)

section \<open>Win predicate\<close>

text \<open>
  C9. \<open>checkWinCondition\<close> is true exactly when each of the four foundation piles holds
  thirteen cards.
\<close>

theorem checkWinCondition_iff:
  "checkWinCondition gs = (length (foundations gs Spades) = 13
      \<and> length (foundations gs Hearts) = 13
      \<and> length (foundations gs Diamonds) = 13
      \<and> length (foundations gs Clubs) = 13)"
  by (simp add: checkWinCondition_def Object_values_def)

section \<open>Tableau tops\<close>






text \<open>
  After a deal the waste is empty and stays empty, so on those boards no waste-to-tableau
  move succeeds. \<open>moveWasteToTableau\<close> itself never reads \<open>faceUp\<close> of the card it
  moves: from a waste whose top lies face-down, which the pile model excludes, the card
  arrives face-down on top of its column.
\<close>

lemma waste_empty_after_deal:
  assumes "fresh_deal w0" "steps w0 (h, gs)"
  shows "waste gs = []"
  using steps_inv[OF assms(2)] fresh_deal_inv[OF assms(1)] by (simp add: deal_inv_def)

lemma faceDown_waste_card_example:
  "succeeds (executeMove (fst sevenOfDiamondsFaceDown) (snd sevenOfDiamondsFaceDown)
      sevenOfDiamondsToColumnTwo) \<and>
   \<not> tops_faceUp
      (heap_after (executeMove (fst sevenOfDiamondsFaceDown) (snd sevenOfDiamondsFaceDown)
         sevenOfDiamondsToColumnTwo))
      (tableau (state_after (executeMove (fst sevenOfDiamondsFaceDown)
         (snd sevenOfDiamondsFaceDown) sevenOfDiamondsToColumnTwo)))"
  by code_simp



end
